theory Spec2Isabelle
  imports Complex_Main "HOL-Library.Sublist" "HOL-Library.Multiset"
begin

section \<open>JavaScript numbers\<close>

text \<open>
  A JavaScript number is an IEEE-754 double. The embedding keeps the special values
  (\<open>NaN\<close>, \<open>+Infinity\<close>, \<open>-Infinity\<close>) and takes every finite value as a real number:
  finite arithmetic is exact (no rounding, no overflow) and the two zeros are one.
  The special-value rules are those of the language: an operation on \<open>NaN\<close> gives
  \<open>NaN\<close>, \<open>0/0\<close> is \<open>NaN\<close>, \<open>x/0\<close> is an infinity, and every comparison with
  \<open>NaN\<close> is false.
\<close>

datatype number = NaN | PosInf | NegInf | Fin real

fun jneg :: "number \<Rightarrow> number" where
  "jneg NaN = NaN"
| "jneg PosInf = NegInf"
| "jneg NegInf = PosInf"
| "jneg (Fin a) = Fin (- a)"

fun jadd :: "number \<Rightarrow> number \<Rightarrow> number" where
  "jadd (Fin a) (Fin b) = Fin (a + b)"
| "jadd NaN _ = NaN"
| "jadd _ NaN = NaN"
| "jadd PosInf NegInf = NaN"
| "jadd NegInf PosInf = NaN"
| "jadd PosInf _ = PosInf"
| "jadd NegInf _ = NegInf"
| "jadd _ PosInf = PosInf"
| "jadd _ NegInf = NegInf"

definition jsub :: "number \<Rightarrow> number \<Rightarrow> number" where
  "jsub a b = jadd a (jneg b)"

text \<open>The sign of a number that is not \<open>NaN\<close>: \<open>-1\<close>, \<open>0\<close> or \<open>1\<close>.\<close>

fun jsign :: "number \<Rightarrow> real" where
  "jsign NaN = 0"
| "jsign PosInf = 1"
| "jsign NegInf = -1"
| "jsign (Fin a) = sgn a"

definition infOfSign :: "real \<Rightarrow> number" where
  "infOfSign s = (if s = 0 then NaN else if 0 < s then PosInf else NegInf)"

fun jmul :: "number \<Rightarrow> number \<Rightarrow> number" where
  "jmul (Fin a) (Fin b) = Fin (a * b)"
| "jmul NaN _ = NaN"
| "jmul _ NaN = NaN"
| "jmul a b = infOfSign (jsign a * jsign b)"

fun jdiv :: "number \<Rightarrow> number \<Rightarrow> number" where
  "jdiv (Fin a) (Fin b) = (if b = 0 then infOfSign (sgn a) else Fin (a / b))"
| "jdiv NaN _ = NaN"
| "jdiv _ NaN = NaN"
| "jdiv (Fin a) _ = Fin 0"
| "jdiv PosInf (Fin b) = (if b < 0 then NegInf else PosInf)"
| "jdiv NegInf (Fin b) = (if b < 0 then PosInf else NegInf)"
| "jdiv _ _ = NaN"

fun jabs :: "number \<Rightarrow> number" where
  "jabs NaN = NaN"
| "jabs PosInf = PosInf"
| "jabs NegInf = PosInf"
| "jabs (Fin a) = Fin \<bar>a\<bar>"

fun jlt :: "number \<Rightarrow> number \<Rightarrow> bool" where
  "jlt (Fin a) (Fin b) = (a < b)"
| "jlt NaN _ = False"
| "jlt _ NaN = False"
| "jlt NegInf b = (b \<noteq> NegInf)"
| "jlt a PosInf = (a \<noteq> PosInf)"
| "jlt _ _ = False"

definition jgt :: "number \<Rightarrow> number \<Rightarrow> bool" where
  "jgt a b = jlt b a"

definition jge :: "number \<Rightarrow> number \<Rightarrow> bool" where
  "jge a b = (a \<noteq> NaN \<and> b \<noteq> NaN \<and> \<not> jlt a b)"

section \<open>JavaScript strings and arrays\<close>

text \<open>
  Strings are byte strings. The code lower-cases a descriptor and looks for an ASCII
  keyword in it; \<open>toLowerCase\<close> is modelled on the ASCII letters and leaves every other
  byte as it is.
\<close>

definition toLowerChar :: "char \<Rightarrow> char" where
  "toLowerChar c =
     (let n = (of_char c :: nat) in if 65 \<le> n \<and> n \<le> 90 then char_of (n + 32) else c)"

definition toLowerCase :: "string \<Rightarrow> string" where
  "toLowerCase s = map toLowerChar s"

text \<open>\<open>s.includes(sub)\<close>: \<open>sub\<close> occurs in \<open>s\<close> as a contiguous run.\<close>

fun includesStr :: "string \<Rightarrow> string \<Rightarrow> bool" where
  "includesStr [] sub = (sub = [])"
| "includesStr (c # cs) sub = (prefix sub (c # cs) \<or> includesStr cs sub)"

text \<open>\<open>s.split('-')\<close>: the pieces between the separators; never an empty array.\<close>

fun splitAcc :: "char \<Rightarrow> string \<Rightarrow> string \<Rightarrow> string list" where
  "splitAcc sep cur [] = [rev cur]"
| "splitAcc sep cur (c # cs) =
     (if c = sep then rev cur # splitAcc sep [] cs else splitAcc sep (c # cur) cs)"

definition split :: "string \<Rightarrow> char \<Rightarrow> string list" where
  "split s sep = splitAcc sep [] s"

text \<open>
  \<open>parseInt(t)\<close> with no radix: leading white space (here the ASCII white space) is
  skipped, an optional sign is read, a \<open>0x\<close> prefix selects radix 16, and the longest
  run of digits is the value, taken exactly; no digit at all gives \<open>NaN\<close>.
\<close>

definition isWhiteSpace :: "char \<Rightarrow> bool" where
  "isWhiteSpace c = (of_char c \<in> {9, 10, 11, 12, 13, 32 :: nat})"

definition digitValue :: "char \<Rightarrow> nat option" where
  "digitValue c =
     (let n = (of_char c :: nat) in
      if 48 \<le> n \<and> n \<le> 57 then Some (n - 48)
      else if 97 \<le> n \<and> n \<le> 122 then Some (n - 87)
      else if 65 \<le> n \<and> n \<le> 90 then Some (n - 55)
      else None)"

definition isRadixDigit :: "nat \<Rightarrow> char \<Rightarrow> bool" where
  "isRadixDigit r c = (case digitValue c of None \<Rightarrow> False | Some d \<Rightarrow> d < r)"

definition radixValue :: "nat \<Rightarrow> string \<Rightarrow> nat" where
  "radixValue r z = foldl (\<lambda>acc c. acc * r + (case digitValue c of None \<Rightarrow> 0 | Some d \<Rightarrow> d)) 0 z"

definition parseInt :: "string \<Rightarrow> number" where
  "parseInt t =
     (let s = dropWhile isWhiteSpace t;
          negative = (s \<noteq> [] \<and> hd s = CHR ''-'');
          s1 = (if s \<noteq> [] \<and> (hd s = CHR ''+'' \<or> hd s = CHR ''-'') then tl s else s);
          hex = (prefix ''0x'' s1 \<or> prefix ''0X'' s1);
          r = (if hex then 16 else 10);
          s2 = (if hex then drop 2 s1 else s1);
          z = takeWhile (isRadixDigit r) s2
      in if z = [] then NaN
         else Fin (if negative then - real (radixValue r z) else real (radixValue r z)))"

text \<open>Reading \<open>a[i]\<close> and using it as a number: a missing element is \<open>undefined\<close>, hence \<open>NaN\<close>.\<close>

definition numberAt :: "number list \<Rightarrow> nat \<Rightarrow> number" where
  "numberAt a i = (if i < length a then a ! i else NaN)"

text \<open>\<open>String(n)\<close> for an integer-valued number.\<close>

fun natToString :: "nat \<Rightarrow> string" where
  "natToString n =
     (if n < 10 then [char_of (48 + n)]
      else natToString (n div 10) @ [char_of (48 + n mod 10)])"

definition intToString :: "int \<Rightarrow> string" where
  "intToString k = (if k < 0 then CHR ''-'' # natToString (nat (- k)) else natToString (nat k))"

section \<open>The culture table and the analyses that are matched against it\<close>

text \<open>
  The table comes from \<open>getAllCultures()\<close> and is a parameter here. A record carries,
  under \<open>characteristics\<close>, three descriptor strings: the tempo range as
  \<open>"lo-hi"\<close>, the rhythm descriptors and the scale descriptors.
\<close>

record characteristics =
  tempoRangeText :: string
  rhythmText :: string
  scalesText :: string

record culture =
  cultureId :: string
  cultureName :: string
  emoji :: string
  cultureCharacteristics :: characteristics

record rhythmAnalysis =
  tempo :: number
  regularity :: number
  peakCount :: nat
  intervals :: "number list option"
  temporalComplexity :: number
  entropy :: number
  polyrhythmic :: bool
  polyrhythmRatio :: string
  percussiveness :: number

record scaleAnalysis =
  scale :: string
  confidence :: number

record culturalMatch =
  matchCulture :: culture
  score :: int

section \<open>Cultural matching (displayMusicalInsights)\<close>

definition tempoRange :: "characteristics \<Rightarrow> number list" where
  "tempoRange ch = map parseInt (split (tempoRangeText ch) CHR ''-'')"

definition avgTempo :: "characteristics \<Rightarrow> number" where
  "avgTempo ch =
     jdiv (jadd (numberAt (tempoRange ch) 0) (numberAt (tempoRange ch) 1)) (Fin 2)"

definition tempoDiff :: "rhythmAnalysis \<Rightarrow> characteristics \<Rightarrow> number" where
  "tempoDiff r ch = jabs (jsub (tempo r) (avgTempo ch))"

text \<open>The three blocks of the scoring loop body, each threading the running \<open>score\<close>.\<close>

definition compareTempo :: "rhythmAnalysis \<Rightarrow> characteristics \<Rightarrow> int \<Rightarrow> int" where
  "compareTempo r ch sc =
     (if jlt (tempoDiff r ch) (Fin 15) then sc + 3
      else if jlt (tempoDiff r ch) (Fin 30) then sc + 2
      else if jlt (tempoDiff r ch) (Fin 50) then sc + 1
      else sc)"

definition compareRhythm :: "rhythmAnalysis \<Rightarrow> characteristics \<Rightarrow> int \<Rightarrow> int" where
  "compareRhythm r ch sc =
     (let sc1 = (if jgt (regularity r) (Fin 0.7) \<and> includesStr (toLowerCase (rhythmText ch)) ''steady''
                 then sc + 2 else sc);
          sc2 = (if jgt (regularity r) (Fin 0.7) \<and> includesStr (toLowerCase (rhythmText ch)) ''regular''
                 then sc1 + 2 else sc1);
          sc3 = (if polyrhythmic r \<and> includesStr (toLowerCase (rhythmText ch)) ''complex''
                 then sc2 + 3 else sc2);
          sc4 = (if polyrhythmic r \<and> includesStr (toLowerCase (rhythmText ch)) ''polyrhythmic''
                 then sc3 + 3 else sc3)
      in sc4)"

definition compareScale :: "scaleAnalysis \<Rightarrow> characteristics \<Rightarrow> int \<Rightarrow> int" where
  "compareScale s ch sc =
     (let sc1 = (if includesStr (scale s) ''Pentatonic'' \<and> includesStr (toLowerCase (scalesText ch)) ''pentatonic''
                 then sc + 3 else sc);
          sc2 = (if includesStr (scale s) ''Minor'' \<and> includesStr (toLowerCase (scalesText ch)) ''minor''
                 then sc1 + 2 else sc1);
          sc3 = (if includesStr (scale s) ''Major'' \<and> includesStr (toLowerCase (scalesText ch)) ''major''
                 then sc2 + 2 else sc2)
      in sc3)"

definition cultureScore :: "rhythmAnalysis \<Rightarrow> scaleAnalysis \<Rightarrow> culture \<Rightarrow> int" where
  "cultureScore r s c =
     compareScale s (cultureCharacteristics c)
       (compareRhythm r (cultureCharacteristics c)
         (compareTempo r (cultureCharacteristics c) 0))"

text \<open>The \<open>forEach\<close> over the table: a record is pushed only when its score is positive.\<close>

fun culturalMatches :: "rhythmAnalysis \<Rightarrow> scaleAnalysis \<Rightarrow> culture list \<Rightarrow> culturalMatch list" where
  "culturalMatches r s [] = []"
| "culturalMatches r s (c # cs) =
     (if cultureScore r s c > 0
      then \<lparr>matchCulture = c, score = cultureScore r s c\<rparr> # culturalMatches r s cs
      else culturalMatches r s cs)"

text \<open>
  \<open>culturalMatches.sort((a, b) => b.score - a.score)\<close>: \<open>Array.prototype.sort\<close> is a
  stable sort (ECMAScript 2019), and the comparator is a consistent order on the
  integer scores, so the result is the stable sort by descending score.
\<close>

definition sortByScore :: "culturalMatch list \<Rightarrow> culturalMatch list" where
  "sortByScore ms = sort_key (\<lambda>m. - score m) ms"

definition topMatches :: "rhythmAnalysis \<Rightarrow> scaleAnalysis \<Rightarrow> culture list \<Rightarrow> culturalMatch list" where
  "topMatches r s allCultures = take 5 (sortByScore (culturalMatches r s allCultures))"

text \<open>
  What the language (ECMAScript 2019 and later) guarantees of \<open>sort\<close> with this
  comparator, whatever algorithm the engine uses: the array afterwards is a permutation
  of the array before, no element is followed by one with a higher score, and elements
  that compare equal keep their order.
\<close>

definition sortContract :: "culturalMatch list \<Rightarrow> culturalMatch list \<Rightarrow> bool" where
  "sortContract before after \<longleftrightarrow>
     mset after = mset before
     \<and> sorted_wrt (\<lambda>a b. score b \<le> score a) after
     \<and> (\<forall>k. filter (\<lambda>m. score m = k) after = filter (\<lambda>m. score m = k) before)"

text \<open>
  A run of the matching step on an engine: the table is what \<open>getAllCultures()\<close>
  returned to this run, the loop scores it, the engine sorts, and the first five are
  kept. The relation holds for every result an engine may produce.
\<close>

definition matchingRun ::
  "culture list \<Rightarrow> rhythmAnalysis \<Rightarrow> scaleAnalysis \<Rightarrow> culturalMatch list \<Rightarrow> bool" where
  "matchingRun allCultures r s result \<longleftrightarrow>
     (\<exists>sortedMatches. sortContract (culturalMatches r s allCultures) sortedMatches
        \<and> result = take 5 sortedMatches)"

text \<open>The line of the rendered card that shows the score: \<open>${match.score}/10\<close>.\<close>

definition matchScoreText :: "culturalMatch \<Rightarrow> string" where
  "matchScoreText m = intToString (score m) @ ''/10''"

text \<open>
  The spec's words for the reference point of the tempo comparison: the midpoint of the
  declared range, when the record declares one (two leading integers around a dash).
\<close>

definition declaredTempoMidpoint :: "characteristics \<Rightarrow> real option" where
  "declaredTempoMidpoint ch =
     (case tempoRange ch of Fin lo # Fin hi # _ \<Rightarrow> Some ((lo + hi) / 2) | _ \<Rightarrow> None)"

text \<open>A table entry with its score, whether or not it is kept.\<close>

definition scored :: "rhythmAnalysis \<Rightarrow> scaleAnalysis \<Rightarrow> culture \<Rightarrow> culturalMatch" where
  "scored r s c = \<lparr>matchCulture = c, score = cultureScore r s c\<rparr>"

text \<open>Sample inputs: an analysis of a steady polyrhythmic pentatonic-minor clip and a small table.\<close>

definition sampleRhythm :: rhythmAnalysis where
  "sampleRhythm =
     \<lparr>tempo = Fin 120, regularity = Fin 0.8, peakCount = 30,
      intervals = Some [Fin 500, Fin 500, Fin 500],
      temporalComplexity = Fin 0.5, entropy = Fin 2, polyrhythmic = True,
      polyrhythmRatio = ''3:2'', percussiveness = Fin 0.1\<rparr>"

definition sampleScale :: scaleAnalysis where
  "sampleScale = \<lparr>scale = ''Pentatonic Minor'', confidence = Fin 0.9\<rparr>"

definition sampleCultureA :: culture where
  "sampleCultureA =
     \<lparr>cultureId = ''a'', cultureName = ''A'', emoji = [],
      cultureCharacteristics =
        \<lparr>tempoRangeText = ''100-140'',
         rhythmText = ''Complex polyrhythmic layers over a steady, regular pulse'',
         scalesText = ''Pentatonic and minor modes''\<rparr>\<rparr>"

definition sampleCultureB :: culture where
  "sampleCultureB =
     \<lparr>cultureId = ''b'', cultureName = ''B'', emoji = [],
      cultureCharacteristics =
        \<lparr>tempoRangeText = ''60-90'', rhythmText = ''Free rhythm'', scalesText = ''Major''\<rparr>\<rparr>"

definition sampleCultureC :: culture where
  "sampleCultureC =
     \<lparr>cultureId = ''c'', cultureName = ''C'', emoji = [],
      cultureCharacteristics =
        \<lparr>tempoRangeText = ''20-40'', rhythmText = ''Free rhythm'', scalesText = ''Major''\<rparr>\<rparr>"

definition sampleCultureD :: culture where
  "sampleCultureD =
     \<lparr>cultureId = ''d'', cultureName = ''D'', emoji = [],
      cultureCharacteristics =
        \<lparr>tempoRangeText = ''70-100'', rhythmText = ''Rubato'', scalesText = ''Modal''\<rparr>\<rparr>"

definition sampleTable :: "culture list" where
  "sampleTable = [sampleCultureB, sampleCultureC, sampleCultureD, sampleCultureA]"

section \<open>Spectral analysis\<close>

text \<open>
  The channel data is a \<open>Float32Array\<close> of decoded samples, taken as finite reals; the
  sample rate of an \<open>AudioBuffer\<close> is a finite number.

  \<open>a.slice(start, end)\<close>: a negative index counts from the end, and both indices are
  clamped to the array.
\<close>

definition slice :: "'a list \<Rightarrow> int \<Rightarrow> int \<Rightarrow> 'a list" where
  "slice a start fin =
     (let len = int (length a);
          k = (if start < 0 then max (len + start) 0 else min start len);
          final = (if fin < 0 then max (len + fin) 0 else min fin len)
      in take (nat (final - k)) (drop (nat k) a))"

text \<open>\<open>performFFT\<close>: the absolute values of the first half of the window.\<close>

function performFFTLoop :: "real list \<Rightarrow> nat \<Rightarrow> real list \<Rightarrow> real list" where
  "performFFTLoop data i magnitudes =
     (if real i < real (length data) / 2
      then performFFTLoop data (i + 1) (magnitudes @ [\<bar>data ! i\<bar>])
      else magnitudes)"
  by pat_completeness auto
termination
  by (relation "measure (\<lambda>(data, i, magnitudes). length data - i)") auto

declare performFFTLoop.simps [simp del]

definition performFFT :: "real list \<Rightarrow> real list" where
  "performFFT data = performFFTLoop data 0 []"

text \<open>
  The window loop of \<open>analyzeSpectrum\<close>: a window of \<open>fftSize = 2048\<close> samples every
  \<open>fftSize * 32\<close> samples while \<open>i < channelData.length - fftSize\<close>, at most
  \<open>maxWindows = 50\<close> of them.
\<close>

function spectrumLoop :: "real list \<Rightarrow> nat \<Rightarrow> nat \<Rightarrow> real list list \<Rightarrow> real list list" where
  "spectrumLoop channelData i windows spectrum =
     (if int i < int (length channelData) - 2048
      then (let window = slice channelData (int i) (int i + 2048);
                fft = performFFT window;
                spectrum' = spectrum @ [fft];
                windows' = windows + 1
            in if windows' \<ge> 50 then spectrum'
               else spectrumLoop channelData (i + 2048 * 32) windows' spectrum')
      else spectrum)"
  by pat_completeness auto
termination
  by (relation "measure (\<lambda>(channelData, i, windows, spectrum). length channelData - i)") auto

declare spectrumLoop.simps [simp del]

text \<open>
  \<open>avgSpectrum[i] += spec[i]\<close> for every index of \<open>spec\<close>; an index beyond the array
  reads \<open>undefined\<close>, so the sum stored there is \<open>NaN\<close>.
\<close>

fun addSpec :: "number list \<Rightarrow> real list \<Rightarrow> number list" where
  "addSpec avg [] = avg"
| "addSpec [] (x # xs) = NaN # addSpec [] xs"
| "addSpec (a # avg) (x # xs) = jadd a (Fin x) # addSpec avg xs"

text \<open>The loop of \<open>calculateSpectralCentroid\<close> over the bins from \<open>i\<close> on; \<open>n\<close> is \<open>spectrum.length\<close>.\<close>

fun centroidLoop :: "number list \<Rightarrow> real \<Rightarrow> nat \<Rightarrow> nat \<Rightarrow> number \<Rightarrow> number \<Rightarrow> number \<times> number" where
  "centroidLoop [] sampleRate n i weightedSum magnitudeSum = (weightedSum, magnitudeSum)"
| "centroidLoop (x # xs) sampleRate n i weightedSum magnitudeSum =
     (let freq = jdiv (jmul (Fin (real i)) (Fin sampleRate)) (Fin (real (n * 2)))
      in centroidLoop xs sampleRate n (i + 1) (jadd weightedSum (jmul freq x)) (jadd magnitudeSum x))"

definition calculateSpectralCentroid :: "number list \<Rightarrow> real \<Rightarrow> number" where
  "calculateSpectralCentroid spectrum sampleRate =
     (case centroidLoop spectrum sampleRate (length spectrum) 0 (Fin 0) (Fin 0) of
        (weightedSum, magnitudeSum) \<Rightarrow>
          if jgt magnitudeSum (Fin 0) then jdiv weightedSum magnitudeSum else Fin 0)"

text \<open>The loop of \<open>calculateSpectralRolloff\<close>, which returns at the first bin that reaches the threshold.\<close>

fun rolloffLoop :: "number list \<Rightarrow> real \<Rightarrow> nat \<Rightarrow> nat \<Rightarrow> number \<Rightarrow> number \<Rightarrow> number" where
  "rolloffLoop [] sampleRate n i threshold cumulativeEnergy = Fin 0"
| "rolloffLoop (x # xs) sampleRate n i threshold cumulativeEnergy =
     (let cumulativeEnergy' = jadd cumulativeEnergy x
      in if jge cumulativeEnergy' threshold
         then jdiv (jmul (Fin (real i)) (Fin sampleRate)) (Fin (real (n * 2)))
         else rolloffLoop xs sampleRate n (i + 1) threshold cumulativeEnergy')"

definition calculateSpectralRolloff :: "number list \<Rightarrow> real \<Rightarrow> number" where
  "calculateSpectralRolloff spectrum sampleRate =
     (let totalEnergy = foldl jadd (Fin 0) spectrum;
          threshold = jmul totalEnergy (Fin 0.85)
      in rolloffLoop spectrum sampleRate (length spectrum) 0 threshold (Fin 0))"

record spectralAnalysis =
  spectrum :: "number list"
  centroid :: number
  rolloff :: number
  brightness :: number

definition analyzeSpectrum :: "real list \<Rightarrow> real \<Rightarrow> spectralAnalysis" where
  "analyzeSpectrum channelData sampleRate =
     (let spectrum = spectrumLoop channelData 0 0 [];
          avgSpectrum = map (\<lambda>val. jdiv val (Fin (real (length spectrum))))
                          (foldl addSpec (replicate 1024 (Fin 0)) spectrum);
          spectralCentroid = calculateSpectralCentroid avgSpectrum sampleRate;
          spectralRolloff = calculateSpectralRolloff avgSpectrum sampleRate;
          brightness = jdiv spectralCentroid (jdiv (Fin sampleRate) (Fin 2))
      in \<lparr>spectrum = avgSpectrum, centroid = spectralCentroid,
          rolloff = spectralRolloff, brightness = brightness\<rparr>)"

text \<open>
  The spec's words for the centroid: the magnitude-weighted mean of the bin frequencies
  \<open>i * sampleRate / (2 * bins)\<close>, and 0 when the total magnitude is 0.
\<close>

definition weightedMeanBinFrequency :: "real list \<Rightarrow> real \<Rightarrow> real" where
  "weightedMeanBinFrequency ms sampleRate =
     (if sum_list ms = 0 then 0
      else sum_list (map (\<lambda>i. real i * sampleRate / real (2 * length ms) * ms ! i) [0..<length ms])
           / sum_list ms)"

text \<open>
  The spec's words for the averaged spectrum: frames of 2048 samples at a stride of
  65536 samples, as many as fit strictly inside the window and at most 50; each frame
  gives the magnitudes of its first 1024 samples; each bin is averaged over the frames.
\<close>

definition windowStarts :: "real list \<Rightarrow> nat list" where
  "windowStarts cd = map (\<lambda>k. k * 65536) (filter (\<lambda>k. k * 65536 + 2048 < length cd) [0..<50])"

definition averagedMagnitudes :: "real list \<Rightarrow> real list" where
  "averagedMagnitudes cd =
     map (\<lambda>j. sum_list (map (\<lambda>i. \<bar>cd ! (i + j)\<bar>) (windowStarts cd)) / real (length (windowStarts cd)))
         [0..<1024]"

section \<open>The analysis run (analyzeAudioFile)\<close>

text \<open>
  \<open>audioAnalyzer\<close> is an object of another module; its methods are parameters of the
  model and are taken to return normally.
\<close>

record audioAnalyzer =
  analyzeRhythm :: "real list \<Rightarrow> rhythmAnalysis"
  calculateTemporalFeatures :: "number list \<Rightarrow> number \<times> number"
  detectPolyrhythm :: "number list \<Rightarrow> bool \<times> string"
  calculateZCR :: "real list \<Rightarrow> number"
  detectPitch :: "real list \<Rightarrow> number"
  identifyScale :: "number list \<Rightarrow> scaleAnalysis"

record audioBuffer =
  channelData :: "real list"
  bufferSampleRate :: real
  bufferDuration :: real

record analysisData =
  dataFilename :: string
  dataDuration :: real
  dataSampleRate :: real
  dataRhythm :: rhythmAnalysis
  dataPitches :: "number list"
  dataTimestamps :: "number list"
  dataSpectral :: spectralAnalysis
  analyzedAt :: string

text \<open>What the chart and insight renderers are given once the analysis has completed.\<close>

record resultsView =
  shownPitches :: "number list"
  shownTimestamps :: "number list"
  shownRhythm :: rhythmAnalysis
  shownSpectral :: spectralAnalysis
  shownScale :: scaleAnalysis
  shownMatches :: "culturalMatch list"

datatype jsError = Error string | TypeError

text \<open>
  The calls that render the completed analysis, in the order of the source:
  \<open>displayPitchAnalysis\<close>, \<open>displayRhythmAnalysis\<close>, \<open>displaySpectralAnalysis\<close>,
  \<open>displayMusicalInsights\<close> and \<open>setupDownloadButtons\<close>. They write the page and call the
  chart library; the error one of them meets there, if any, is given by the
  environment of the run.
\<close>

datatype renderer = PitchChart | RhythmChart | SpectralChart | Insights | DownloadButtons

text \<open>The content of the \<open>analysis-results\<close> element.\<close>

datatype panel =
    Blank
  | ProcessingAudio
  | AnalyzingRhythm
  | AnalyzingPitch
  | AnalyzingSpectrum
  | ResultsGrid resultsView
  | AnalysisFailed jsError

text \<open>
  The module-level variables the run writes, and the two elements it touches.
\<close>

record appState =
  analysisCancelled :: bool
  cancelBtnShown :: bool
  analysisResults :: panel
  currentAnalysisData :: "analysisData option"

text \<open>
  The run is suspended at each \<open>await\<close>; only there can the click handler of the cancel
  button run and set \<open>analysisCancelled\<close>. The environment of a run says whether the
  cancel button exists and during which suspensions the user clicks it.
\<close>

datatype awaitPoint =
    AfterRhythmBanner
  | AfterRhythm
  | AfterPitchBanner
  | PitchYield nat
  | AfterPitch
  | AfterSpectrumBanner

record runEnv =
  hasCancelBtn :: bool
  clickDuring :: "awaitPoint \<Rightarrow> bool"
  analyzer :: audioAnalyzer
  allCultures :: "culture list"
  clock :: string
  rendererFault :: "renderer \<Rightarrow> jsError option"

definition clicked :: "runEnv \<Rightarrow> awaitPoint \<Rightarrow> bool" where
  "clicked env p = (hasCancelBtn env \<and> clickDuring env p)"

definition awaitAt :: "runEnv \<Rightarrow> awaitPoint \<Rightarrow> appState \<Rightarrow> appState" where
  "awaitAt env p st = st\<lparr>analysisCancelled := analysisCancelled st \<or> clicked env p\<rparr>"

definition showCancelBtn :: "runEnv \<Rightarrow> appState \<Rightarrow> appState" where
  "showCancelBtn env st = (if hasCancelBtn env then st\<lparr>cancelBtnShown := True\<rparr> else st)"

definition hideCancelBtn :: "runEnv \<Rightarrow> appState \<Rightarrow> appState" where
  "hideCancelBtn env st = (if hasCancelBtn env then st\<lparr>cancelBtnShown := False\<rparr> else st)"

definition cancelledError :: jsError where
  "cancelledError = Error ''Analysis cancelled''"

text \<open>
  The first error thrown while rendering. \<open>displayRhythmAnalysis\<close> reads
  \<open>rhythmAnalysis.intervals.slice\<close> for the chart it builds, a \<open>TypeError\<close> when the
  analysis has no intervals.
\<close>

definition renderFault :: "runEnv \<Rightarrow> resultsView \<Rightarrow> jsError option" where
  "renderFault env view =
     (case rendererFault env PitchChart of
        Some e \<Rightarrow> Some e
      | None \<Rightarrow>
          if intervals (shownRhythm view) = None then Some TypeError
          else (case rendererFault env RhythmChart of
                  Some e \<Rightarrow> Some e
                | None \<Rightarrow>
                    (case rendererFault env SpectralChart of
                       Some e \<Rightarrow> Some e
                     | None \<Rightarrow>
                         (case rendererFault env Insights of
                            Some e \<Rightarrow> Some e
                          | None \<Rightarrow> rendererFault env DownloadButtons))))"

text \<open>The first 15 seconds of channel 0.\<close>

definition trimmedSamples :: "real list \<Rightarrow> real \<Rightarrow> int" where
  "trimmedSamples channel sampleRate = min (int (length channel)) \<lfloor>sampleRate * 15\<rfloor>"

definition trimmedChannel :: "real list \<Rightarrow> real \<Rightarrow> real list" where
  "trimmedChannel channel sampleRate = slice channel 0 (trimmedSamples channel sampleRate)"

definition rhythmStage :: "audioAnalyzer \<Rightarrow> real list \<Rightarrow> rhythmAnalysis" where
  "rhythmStage a trimmed =
     (let rhythm = analyzeRhythm a trimmed;
          ivs = (case intervals rhythm of None \<Rightarrow> [] | Some v \<Rightarrow> v);
          temporalFeatures = calculateTemporalFeatures a ivs;
          polyrhythm = detectPolyrhythm a ivs;
          zcr = calculateZCR a trimmed
      in rhythm\<lparr>temporalComplexity := fst temporalFeatures,
                entropy := snd temporalFeatures,
                polyrhythmic := fst polyrhythm,
                polyrhythmRatio := snd polyrhythm,
                percussiveness := zcr\<rparr>)"

text \<open>The filter of the pitch loop: \<open>pitch > 0 && pitch < 2000\<close>.\<close>

definition accepted :: "number \<Rightarrow> bool" where
  "accepted p = (jgt p (Fin 0) \<and> jlt p (Fin 2000))"

text \<open>
  The pitch loop: a frame of \<open>sampleSize = 4096\<close> samples every \<open>sampleSize * 64\<close>
  samples while \<open>i < trimmedChannel.length - sampleSize\<close>, the cancel flag checked at
  the head of each iteration, a suspension every 5 frames, and a \<open>break\<close> after
  \<open>maxFrames = 20\<close>. It returns the flag, the pitches, the timestamps and the number
  of frames examined, or the error thrown on cancellation.
\<close>

function pitchLoop ::
  "runEnv \<Rightarrow> real list \<Rightarrow> real \<Rightarrow> nat \<Rightarrow> nat \<Rightarrow> bool \<Rightarrow> number list \<Rightarrow> number list
   \<Rightarrow> jsError + (bool \<times> number list \<times> number list \<times> nat)" where
  "pitchLoop env trimmed sampleRate i frames cancelled pitches timestamps =
     (if int i < int (length trimmed) - 4096
      then if cancelled then Inl cancelledError
           else (let sample = slice trimmed (int i) (int i + 4096);
                     pitch = detectPitch (analyzer env) sample;
                     keep = accepted pitch;
                     pitches' = (if keep then pitches @ [pitch] else pitches);
                     timestamps' = (if keep then timestamps @ [jdiv (Fin (real i)) (Fin sampleRate)]
                                    else timestamps);
                     frames' = frames + 1;
                     cancelled' = (if frames' mod 5 = 0
                                   then cancelled \<or> clicked env (PitchYield frames')
                                   else cancelled)
                 in if frames' \<ge> 20 then Inr (cancelled', pitches', timestamps', frames')
                    else pitchLoop env trimmed sampleRate (i + 4096 * 64) frames' cancelled'
                           pitches' timestamps')
      else Inr (cancelled, pitches, timestamps, frames))"
  by pat_completeness auto
termination
  by (relation "measure (\<lambda>(env, trimmed, sampleRate, i, frames, cancelled, pitches, timestamps).
                           length trimmed - i)") auto

declare pitchLoop.simps [simp del]

text \<open>
  The body of the \<open>try\<close> block after the processing banner. A \<open>throw\<close> leaves with the
  error and the state reached so far. On completion the analysis data is stored first
  and the renderers run after it, so an error of theirs reaches the \<open>catch\<close> with the
  data already stored; the page they had partly filled is replaced there.
\<close>

definition tryBlock ::
  "runEnv \<Rightarrow> audioBuffer option \<Rightarrow> string \<Rightarrow> appState \<Rightarrow> (jsError \<times> appState) + appState" where
  "tryBlock env audioBuffer filename st =
     (case audioBuffer of
        None \<Rightarrow> Inl (TypeError, st)
      | Some b \<Rightarrow>
          let sampleRate = bufferSampleRate b;
              trimmed = trimmedChannel (channelData b) sampleRate;
              st1 = awaitAt env AfterRhythmBanner (st\<lparr>analysisResults := AnalyzingRhythm\<rparr>)
          in if analysisCancelled st1 then Inl (cancelledError, st1)
             else
               let rhythm = rhythmStage (analyzer env) trimmed;
                   st2 = awaitAt env AfterRhythm st1
               in if analysisCancelled st2 then Inl (cancelledError, st2)
                  else
                    let st3 = awaitAt env AfterPitchBanner (st2\<lparr>analysisResults := AnalyzingPitch\<rparr>)
                    in case pitchLoop env trimmed sampleRate 0 0 (analysisCancelled st3) [] [] of
                         Inl e \<Rightarrow> Inl (e, st3\<lparr>analysisCancelled := True\<rparr>)
                       | Inr (cancelled, pitches, timestamps, frames) \<Rightarrow>
                           let st4 = awaitAt env AfterPitch (st3\<lparr>analysisCancelled := cancelled\<rparr>)
                           in if analysisCancelled st4 then Inl (cancelledError, st4)
                              else
                                let st5 = awaitAt env AfterSpectrumBanner
                                            (st4\<lparr>analysisResults := AnalyzingSpectrum\<rparr>);
                                    spectral = analyzeSpectrum trimmed sampleRate;
                                    scaleA = identifyScale (analyzer env) pitches;
                                    view = \<lparr>shownPitches = pitches, shownTimestamps = timestamps,
                                            shownRhythm = rhythm, shownSpectral = spectral,
                                            shownScale = scaleA,
                                            shownMatches = topMatches rhythm scaleA (allCultures env)\<rparr>;
                                    data = \<lparr>dataFilename = filename, dataDuration = bufferDuration b,
                                            dataSampleRate = sampleRate, dataRhythm = rhythm,
                                            dataPitches = pitches, dataTimestamps = timestamps,
                                            dataSpectral = spectral, analyzedAt = clock env\<rparr>;
                                    st6 = st5\<lparr>currentAnalysisData := Some data\<rparr>
                                in case renderFault env view of
                                     Some e \<Rightarrow> Inl (e, st6)
                                   | None \<Rightarrow>
                                       Inr (hideCancelBtn env
                                              (st6\<lparr>analysisResults := ResultsGrid view\<rparr>)))"

text \<open>
  The whole function: the flag is reset, the cancel button (when there is one) is shown
  and given its click handler, and the single \<open>catch\<close> turns every error, the one thrown
  on cancellation included, into the failure panel with the error's message.
\<close>

definition analyzeAudioFile :: "runEnv \<Rightarrow> audioBuffer option \<Rightarrow> string \<Rightarrow> appState \<Rightarrow> appState" where
  "analyzeAudioFile env audioBuffer filename st0 =
     (let st = (showCancelBtn env (st0\<lparr>analysisCancelled := False\<rparr>))
                  \<lparr>analysisResults := ProcessingAudio\<rparr>
      in case tryBlock env audioBuffer filename st of
           Inr done \<Rightarrow> done
         | Inl (error, reached) \<Rightarrow>
             (hideCancelBtn env reached)\<lparr>analysisResults := AnalysisFailed error\<rparr>)"

text \<open>The frames the pitch loop walks, and the series it builds from the first \<open>frames\<close> of them.\<close>

definition pitchFrame :: "real list \<Rightarrow> nat \<Rightarrow> real list" where
  "pitchFrame trimmed k = slice trimmed (int (k * 262144)) (int (k * 262144) + 4096)"

definition pitchSeries :: "runEnv \<Rightarrow> real list \<Rightarrow> real \<Rightarrow> nat \<Rightarrow> (number \<times> number) list" where
  "pitchSeries env trimmed sampleRate frames =
     map (\<lambda>k. (detectPitch (analyzer env) (pitchFrame trimmed k),
               jdiv (Fin (real (k * 262144))) (Fin sampleRate)))
         (filter (\<lambda>k. accepted (detectPitch (analyzer env) (pitchFrame trimmed k))) [0..<frames])"

text \<open>Sample environment: an analyzer with fixed answers, and a click during the first suspension.\<close>

definition sampleAnalyzer :: audioAnalyzer where
  "sampleAnalyzer =
     \<lparr>analyzeRhythm = (\<lambda>_. sampleRhythm),
      calculateTemporalFeatures = (\<lambda>_. (Fin 0.5, Fin 2)),
      detectPolyrhythm = (\<lambda>_. (True, ''3:2'')),
      calculateZCR = (\<lambda>_. Fin 0.1),
      detectPitch = (\<lambda>frame. if frame = [] then Fin 0 else Fin (440 + 2000 * hd frame)),
      identifyScale = (\<lambda>_. sampleScale)\<rparr>"

definition sampleBuffer :: audioBuffer where
  "sampleBuffer = \<lparr>channelData = replicate 5000 0, bufferSampleRate = 44100, bufferDuration = 5000 / 44100\<rparr>"

definition cancelEarlyEnv :: runEnv where
  "cancelEarlyEnv =
     \<lparr>hasCancelBtn = True, clickDuring = (\<lambda>p. p = AfterRhythmBanner), analyzer = sampleAnalyzer,
      allCultures = sampleTable, clock = ''2025-01-01T00:00:00.000Z'',
      rendererFault = (\<lambda>_. None)\<rparr>"

definition quietEnv :: runEnv where
  "quietEnv = cancelEarlyEnv\<lparr>clickDuring := (\<lambda>p. False)\<rparr>"

definition initialState :: appState where
  "initialState =
     \<lparr>analysisCancelled = False, cancelBtnShown = False, analysisResults = Blank,
      currentAnalysisData = None\<rparr>"

text \<open>A clip of two pitch frames: the first starts with silence, the second with full scale.\<close>

definition sampleClip :: "real list" where
  "sampleClip = replicate 262144 0 @ replicate 10000 1"

text \<open>Whether the results element shows the failure panel.\<close>

definition reportsFailure :: "panel \<Rightarrow> bool" where
  "reportsFailure p = (case p of AnalysisFailed _ \<Rightarrow> True | _ \<Rightarrow> False)"

definition sampleSpectrum :: "real list" where
  "sampleSpectrum = [1, 2, 3, 4]"

section \<open>Properties of the cultural matching\<close>

lemma culturalMatches_filter:
  "culturalMatches r s cs = filter (\<lambda>m. 0 < score m) (map (scored r s) cs)"
  by (induction cs) (simp_all add: scored_def)

lemma compareRhythm_add: "compareRhythm r ch sc = sc + compareRhythm r ch 0"
  by (simp add: compareRhythm_def Let_def)

lemma compareScale_add: "compareScale s ch sc = sc + compareScale s ch 0"
  by (simp add: compareScale_def Let_def)

lemma cultureScore_sum:
  "cultureScore r s c =
     compareTempo r (cultureCharacteristics c) 0
     + compareRhythm r (cultureCharacteristics c) 0
     + compareScale s (cultureCharacteristics c) 0"
  unfolding cultureScore_def
  by (subst compareScale_add, subst compareRhythm_add) simp

lemma compareTempo_midpoint:
  "compareTempo r ch sc = sc +
     (case (tempo r, declaredTempoMidpoint ch) of
        (Fin t, Some m) \<Rightarrow>
          (if \<bar>t - m\<bar> < 15 then 3 else if \<bar>t - m\<bar> < 30 then 2
           else if \<bar>t - m\<bar> < 50 then 1 else 0)
      | _ \<Rightarrow> 0)"
proof -
  define a where "a = numberAt (tempoRange ch) 0"
  define b where "b = numberAt (tempoRange ch) 1"
  have mid: "declaredTempoMidpoint ch =
      (case (a, b) of (Fin lo, Fin hi) \<Rightarrow> Some ((lo + hi) / 2) | _ \<Rightarrow> None)"
    unfolding a_def b_def declaredTempoMidpoint_def numberAt_def
    by (auto split: list.splits number.splits)
  have diff: "tempoDiff r ch = jabs (jsub (tempo r) (jdiv (jadd a b) (Fin 2)))"
    by (simp add: tempoDiff_def avgTempo_def a_def b_def)
  show ?thesis
    unfolding compareTempo_def diff mid
    by (cases a; cases b; cases "tempo r") (simp_all add: jsub_def infOfSign_def)
qed

lemma topMatches_positive: "list_all (\<lambda>m. 0 < score m) (topMatches r s t)"
proof -
  have "set (topMatches r s t) \<subseteq> set (culturalMatches r s t)"
    unfolding topMatches_def sortByScore_def
    using set_take_subset[of 5 "sort_key (\<lambda>m. - score m) (culturalMatches r s t)"] by simp
  then show ?thesis by (auto simp: list_all_iff culturalMatches_filter)
qed

lemma topMatches_descending: "sorted_wrt (\<lambda>a b. score b \<le> score a) (topMatches r s t)"
proof -
  have "sorted (map (\<lambda>m. - score m) (sortByScore (culturalMatches r s t)))"
    unfolding sortByScore_def by (rule sorted_sort_key)
  then have "sorted_wrt (\<lambda>a b. score b \<le> score a) (sortByScore (culturalMatches r s t))"
    by (simp add: sorted_map)
  then show ?thesis unfolding topMatches_def by (rule sorted_wrt_take)
qed

lemma topMatches_ties:
  "prefix (filter (\<lambda>m. score m = k) (topMatches r s t))
          (filter (\<lambda>m. score m = k) (map (scored r s) t))"
proof (cases "0 < k")
  case True
  have "filter (\<lambda>m. score m = k) (sortByScore (culturalMatches r s t))
        = filter (\<lambda>m. - score m = - k) (sort_key (\<lambda>m. - score m) (culturalMatches r s t))"
    by (simp add: sortByScore_def)
  also have "\<dots> = filter (\<lambda>m. - score m = - k) (culturalMatches r s t)"
    by (rule sort_key_stable)
  also have "\<dots> = filter (\<lambda>m. score m = k) (map (scored r s) t)"
    using True by (simp add: culturalMatches_filter) (metis (mono_tags, lifting) filter_cong)
  finally have e: "filter (\<lambda>m. score m = k) (sortByScore (culturalMatches r s t))
                   = filter (\<lambda>m. score m = k) (map (scored r s) t)" .
  have "prefix (filter (\<lambda>m. score m = k) (topMatches r s t))
               (filter (\<lambda>m. score m = k) (sortByScore (culturalMatches r s t)))"
    unfolding topMatches_def by (rule filter_mono_prefix) (rule take_is_prefix)
  with e show ?thesis by simp
next
  case False
  then have "filter (\<lambda>m. score m = k) (topMatches r s t) = []"
    using topMatches_positive[of r s t] by (auto simp: list_all_iff filter_empty_conv)
  then show ?thesis by simp
qed

text \<open>
  Claim C1. Whatever the rhythm analysis, the scale analysis and the culture table, the
  matches that are shown all have a score above 0, come in descending order of score,
  keep the table's order among equal scores (for each score value, the shown matches
  with that score are the first ones, in table order, of the table's records with that
  score), and are at most 5.
\<close>

theorem topMatches_invariants:
  "list_all (\<lambda>m. 0 < score m) (topMatches r s t)
   \<and> sorted_wrt (\<lambda>a b. score b \<le> score a) (topMatches r s t)
   \<and> (\<forall>k. prefix (filter (\<lambda>m. score m = k) (topMatches r s t))
                  (filter (\<lambda>m. score m = k) (map (scored r s) t)))
   \<and> length (topMatches r s t) \<le> 5"
  using topMatches_positive topMatches_descending topMatches_ties
  by (simp add: topMatches_def)

theorem topMatches_invariants_witness:
  "list_all (\<lambda>m. 0 < score m) (topMatches sampleRhythm sampleScale sampleTable)
   \<and> sorted_wrt (\<lambda>a b. score b \<le> score a) (topMatches sampleRhythm sampleScale sampleTable)
   \<and> (\<forall>k. prefix (filter (\<lambda>m. score m = k) (topMatches sampleRhythm sampleScale sampleTable))
                  (filter (\<lambda>m. score m = k) (map (scored sampleRhythm sampleScale) sampleTable)))
   \<and> length (topMatches sampleRhythm sampleScale sampleTable) \<le> 5"
  by (rule topMatches_invariants)

text \<open>
  Claim C3. The tempo block adds to the running score a bonus that depends only on the
  distance between the detected tempo and the midpoint of the record's declared range:
  3 below 15, else 2 below 30, else 1 below 50, else 0 (also 0 when the record declares
  no range or the tempo is not a finite number); and the record's score is this bonus
  plus the rhythm and scale bonuses.
\<close>

theorem tempo_proximity_tiers:
  "compareTempo r (cultureCharacteristics c) sc = sc +
     (case (tempo r, declaredTempoMidpoint (cultureCharacteristics c)) of
        (Fin t, Some m) \<Rightarrow>
          (if \<bar>t - m\<bar> < 15 then 3 else if \<bar>t - m\<bar> < 30 then 2
           else if \<bar>t - m\<bar> < 50 then 1 else 0)
      | _ \<Rightarrow> 0)
   \<and> cultureScore r s c =
       compareTempo r (cultureCharacteristics c) 0
       + compareRhythm r (cultureCharacteristics c) 0
       + compareScale s (cultureCharacteristics c) 0"
  using compareTempo_midpoint cultureScore_sum by simp

theorem tempo_proximity_tiers_witness:
  "compareTempo sampleRhythm (cultureCharacteristics sampleCultureA) 0 = 3
   \<and> compareTempo sampleRhythm (cultureCharacteristics sampleCultureB) 0 = 1
   \<and> compareTempo sampleRhythm (cultureCharacteristics sampleCultureC) 0 = 0"
proof -
  have t: "tempo sampleRhythm = Fin 120"
    by (simp add: sampleRhythm_def)
  have a: "declaredTempoMidpoint (cultureCharacteristics sampleCultureA) = Some 120"
    by code_simp
  have b: "declaredTempoMidpoint (cultureCharacteristics sampleCultureB) = Some 75"
    by code_simp
  have c: "declaredTempoMidpoint (cultureCharacteristics sampleCultureC) = Some 30"
    by code_simp
  show ?thesis
    using tempo_proximity_tiers[of sampleRhythm sampleCultureA 0 sampleScale]
      tempo_proximity_tiers[of sampleRhythm sampleCultureB 0 sampleScale]
      tempo_proximity_tiers[of sampleRhythm sampleCultureC 0 sampleScale]
    by (simp add: t a b c)
qed

lemma topMatches_sample:
  "map (\<lambda>m. (cultureId (matchCulture m), score m)) (topMatches sampleRhythm sampleScale sampleTable)
   = [(''a'', 18), (''b'', 1), (''d'', 1)]"
  by code_simp

lemma sortByScore_contract: "sortContract xs (sortByScore xs)"
proof -
  have "sorted (map (\<lambda>m. - score m) (sortByScore xs))"
    unfolding sortByScore_def by (rule sorted_sort_key)
  then have s: "sorted_wrt (\<lambda>a b. score b \<le> score a) (sortByScore xs)"
    by (simp add: sorted_map)
  have st: "filter (\<lambda>m. score m = k) (sortByScore xs) = filter (\<lambda>m. score m = k) xs" for k
    using sort_key_stable[of "\<lambda>m. - score m" "- k" xs] by (simp add: sortByScore_def)
  show ?thesis
    unfolding sortContract_def using s st by (simp add: sortByScore_def)
qed

lemma sortContract_unique:
  assumes "sortContract xs ys"
  shows "ys = sortByScore xs"
proof -
  have m: "mset ys = mset xs" using assms by (simp add: sortContract_def)
  have s: "sorted (map (\<lambda>m. - score m) ys)"
    using assms by (simp add: sortContract_def sorted_map)
  have st: "filter (\<lambda>x. - score k = - score x) ys = filter (\<lambda>x. - score k = - score x) xs" for k
  proof -
    have f: "filter (\<lambda>m. score m = score k) ys = filter (\<lambda>m. score m = score k) xs"
      using assms by (simp add: sortContract_def)
    have e: "(\<lambda>x. - score k = - score x) = (\<lambda>m. score m = score k)" by auto
    show ?thesis unfolding e by (rule f)
  qed
  have "sort_key (\<lambda>m. - score m) xs = ys"
    by (rule properties_for_sort_key[OF m _ s]) (rule st)
  then show ?thesis by (simp add: sortByScore_def)
qed

lemma matchingRun_topMatches: "matchingRun t r s (topMatches r s t)"
  unfolding matchingRun_def topMatches_def
  by (rule exI[of _ "sortByScore (culturalMatches r s t)"]) (simp add: sortByScore_contract)

lemma matchingRun_unique: "matchingRun t r s res \<Longrightarrow> res = topMatches r s t"
  unfolding matchingRun_def topMatches_def by (auto dest: sortContract_unique)

text \<open>
  Claim C7. Two runs of the matching step on the same rhythm analysis, the same scale
  analysis and the same table produce the same matches in the same order, whatever
  sorting algorithm the engine uses within the language's contract: every run has a
  result (the one \<open>topMatches\<close> computes), and any two results of runs on the same
  inputs are equal.
\<close>

theorem matching_deterministic:
  "matchingRun t r s (topMatches r s t)
   \<and> (\<forall>res1 res2. matchingRun t r s res1 \<longrightarrow> matchingRun t r s res2 \<longrightarrow> res1 = res2)"
  using matchingRun_topMatches matchingRun_unique by blast

theorem matching_deterministic_witness:
  "matchingRun sampleTable sampleRhythm sampleScale (topMatches sampleRhythm sampleScale sampleTable)
   \<and> \<not> matchingRun sampleTable sampleRhythm sampleScale
         (rev (topMatches sampleRhythm sampleScale sampleTable))"
proof -
  let ?top = "topMatches sampleRhythm sampleScale sampleTable"
  have a: "matchingRun sampleTable sampleRhythm sampleScale ?top"
    using matching_deterministic[of sampleTable sampleRhythm sampleScale] by blast
  have u: "\<And>res1 res2. matchingRun sampleTable sampleRhythm sampleScale res1
            \<Longrightarrow> matchingRun sampleTable sampleRhythm sampleScale res2 \<Longrightarrow> res1 = res2"
    using matching_deterministic[of sampleTable sampleRhythm sampleScale] by blast
  have b: "\<not> matchingRun sampleTable sampleRhythm sampleScale (rev ?top)"
  proof
    assume "matchingRun sampleTable sampleRhythm sampleScale (rev ?top)"
    from u[OF this a] have "rev ?top = ?top" .
    then have "rev (map (\<lambda>m. (cultureId (matchCulture m), score m)) ?top)
               = map (\<lambda>m. (cultureId (matchCulture m), score m)) ?top"
      by (simp only: rev_map)
    then show False unfolding topMatches_sample by simp
  qed
  show ?thesis using a b by (rule conjI)
qed

text \<open>
  Claim C10. Some inputs give one culture a score above 10: a scale name with both
  \<open>Pentatonic\<close> and \<open>Minor\<close> in it, and a rhythm that is regular above 0.7 and
  polyrhythmic, against a record whose descriptors name all of these, score 18, and
  the card shows it as \<open>18/10\<close>.
\<close>

theorem score_exceeds_ten:
  "\<exists>r s c. includesStr (scale s) ''Pentatonic'' \<and> includesStr (scale s) ''Minor''
     \<and> jgt (regularity r) (Fin 0.7) \<and> polyrhythmic r
     \<and> 10 < cultureScore r s c
     \<and> map matchScoreText (topMatches r s [c]) = [''18/10'']"
proof -
  have h: "includesStr (scale sampleScale) ''Pentatonic'' \<and> includesStr (scale sampleScale) ''Minor''
     \<and> jgt (regularity sampleRhythm) (Fin 0.7) \<and> polyrhythmic sampleRhythm
     \<and> 10 < cultureScore sampleRhythm sampleScale sampleCultureA
     \<and> map matchScoreText (topMatches sampleRhythm sampleScale [sampleCultureA]) = [''18/10'']"
    by code_simp
  show ?thesis
    by (rule exI[of _ sampleRhythm], rule exI[of _ sampleScale], rule exI[of _ sampleCultureA])
       (rule h)
qed

section \<open>Properties of the spectral analysis\<close>

lemma jge_Fin [simp]: "jge (Fin a) (Fin b) = (b \<le> a)"
  by (auto simp: jge_def)

lemma jge_NaN [simp]: "jge a NaN = False"
  by (simp add: jge_def)

lemma jgt_Fin [simp]: "jgt (Fin a) (Fin b) = (b < a)"
  by (simp add: jgt_def)

lemma jgt_NaN [simp]: "jgt NaN b = False"
  by (cases b) (simp_all add: jgt_def)

lemma jadd_NaN_right [simp]: "jadd a NaN = NaN"
  by (cases a) simp_all

lemma binFrequency_Fin:
  "0 < n \<Longrightarrow> jdiv (jmul (Fin (real i)) (Fin sr)) (Fin (real (n * 2))) = Fin (real i * sr / real (n * 2))"
  by simp

subsection \<open>A window in which no frame fits\<close>

lemma centroidLoop_NaN:
  "snd (centroidLoop xs sr n i w NaN) = NaN"
  by (induction xs arbitrary: i w) (simp_all add: Let_def)

lemma centroidLoop_replicate_NaN:
  "0 < k \<Longrightarrow> snd (centroidLoop (replicate k NaN) sr n i w t) = NaN"
  by (cases k) (simp_all add: Let_def centroidLoop_NaN)

lemma calculateSpectralCentroid_NaN:
  "0 < k \<Longrightarrow> calculateSpectralCentroid (replicate k NaN) sr = Fin 0"
  using centroidLoop_replicate_NaN[of k sr k 0 "Fin 0" "Fin 0"]
  by (auto simp: calculateSpectralCentroid_def split: prod.splits)

lemma rolloffLoop_NaN: "rolloffLoop xs sr n i NaN c = Fin 0"
  by (induction xs arbitrary: i c) (simp_all add: Let_def)

lemma foldl_jadd_NaN: "foldl jadd NaN xs = NaN"
  by (induction xs) simp_all

lemma foldl_jadd_replicate_NaN: "0 < k \<Longrightarrow> foldl jadd a (replicate k NaN) = NaN"
  by (cases k) (simp_all add: foldl_jadd_NaN)

lemma calculateSpectralRolloff_NaN:
  "0 < k \<Longrightarrow> calculateSpectralRolloff (replicate k NaN) sr = Fin 0"
  by (simp add: calculateSpectralRolloff_def foldl_jadd_replicate_NaN rolloffLoop_NaN)

lemma spectrumLoop_short:
  "length cd \<le> 2048 \<Longrightarrow> spectrumLoop cd 0 0 [] = []"
  by (subst spectrumLoop.simps) simp

lemma avgSpectrum_no_frame:
  "length cd \<le> 2048 \<Longrightarrow> spectrum (analyzeSpectrum cd sr) = replicate 1024 NaN"
  by (simp add: analyzeSpectrum_def Let_def infOfSign_def spectrumLoop_short)

lemma analyzeSpectrum_no_frame:
  assumes "length cd \<le> 2048" and "0 < sr"
  shows "centroid (analyzeSpectrum cd sr) = Fin 0 \<and> rolloff (analyzeSpectrum cd sr) = Fin 0
         \<and> brightness (analyzeSpectrum cd sr) = Fin 0"
proof -
  have avg: "map (\<lambda>val. jdiv val (Fin (real (length (spectrumLoop cd 0 0 [])))))
                 (foldl addSpec (replicate 1024 (Fin 0)) (spectrumLoop cd 0 0 []))
             = replicate 1024 NaN"
    using assms(1) by (simp add: infOfSign_def spectrumLoop_short)
  show ?thesis
    unfolding analyzeSpectrum_def Let_def avg
    using assms(2) by (simp add: calculateSpectralCentroid_NaN calculateSpectralRolloff_NaN)
qed

subsection \<open>Rolloff\<close>

lemma foldl_jadd_Fin: "foldl jadd (Fin a) (map Fin ms) = Fin (a + sum_list ms)"
  by (induction ms arbitrary: a) (simp_all add: add.assoc)

lemma rolloffLoop_none:
  "\<forall>k<length xs. c + sum_list (take (Suc k) xs) < th
   \<Longrightarrow> rolloffLoop (map Fin xs) sr n i (Fin th) (Fin c) = Fin 0"
proof (induction xs arbitrary: i c)
  case Nil
  then show ?case by simp
next
  case (Cons x xs)
  have first: "c + x < th" using Cons.prems[rule_format, of 0] by simp
  have rest: "\<forall>k<length xs. (c + x) + sum_list (take (Suc k) xs) < th"
  proof (intro allI impI)
    fix k assume "k < length xs"
    then show "(c + x) + sum_list (take (Suc k) xs) < th"
      using Cons.prems[rule_format, of "Suc k"] by (simp add: add.assoc)
  qed
  show ?case using first Cons.IH[OF rest] by (simp add: Let_def)
qed

lemma rolloffLoop_first:
  "k < length xs \<Longrightarrow> th \<le> c + sum_list (take (Suc k) xs)
   \<Longrightarrow> \<forall>j<k. c + sum_list (take (Suc j) xs) < th \<Longrightarrow> 0 < n
   \<Longrightarrow> rolloffLoop (map Fin xs) sr n i (Fin th) (Fin c) = Fin (real (i + k) * sr / real (n * 2))"
proof (induction xs arbitrary: i c k)
  case Nil
  then show ?case by simp
next
  case (Cons x xs)
  show ?case
  proof (cases k)
    case 0
    then show ?thesis using Cons.prems by (simp add: Let_def)
  next
    case (Suc k')
    have first: "c + x < th" using Cons.prems(3)[rule_format, of 0] Suc by simp
    have a: "k' < length xs" using Cons.prems(1) Suc by simp
    have b: "th \<le> (c + x) + sum_list (take (Suc k') xs)"
      using Cons.prems(2) Suc by (simp add: add.assoc)
    have c: "\<forall>j<k'. (c + x) + sum_list (take (Suc j) xs) < th"
    proof (intro allI impI)
      fix j assume "j < k'"
      then show "(c + x) + sum_list (take (Suc j) xs) < th"
        using Cons.prems(3)[rule_format, of "Suc j"] Suc by (simp add: add.assoc)
    qed
    show ?thesis
      using first Cons.IH[OF a b c Cons.prems(4), of "i + 1"] Suc by (simp add: Let_def)
  qed
qed

lemma calculateSpectralRolloff_Fin:
  "calculateSpectralRolloff (map Fin ms) sr
   = rolloffLoop (map Fin ms) sr (length ms) 0 (Fin (sum_list ms * 0.85)) (Fin 0)"
  by (simp add: calculateSpectralRolloff_def foldl_jadd_Fin)

lemma sum_list_take_le:
  "\<forall>m\<in>set ms. (0::real) \<le> m \<Longrightarrow> sum_list (take k ms) \<le> sum_list ms"
proof -
  assume h: "\<forall>m\<in>set ms. (0::real) \<le> m"
  have "sum_list ms = sum_list (take k ms) + sum_list (drop k ms)"
    by (metis append_take_drop_id sum_list_append)
  moreover have "0 \<le> sum_list (drop k ms)"
    using h by (intro sum_list_nonneg) (auto dest: in_set_dropD)
  ultimately show ?thesis by simp
qed

lemma rolloff_first_bin:
  assumes nonneg: "\<forall>m\<in>set ms. 0 \<le> m" and ne: "ms \<noteq> []"
  shows "\<exists>k<length ms.
           calculateSpectralRolloff (map Fin ms) sr = Fin (real k * sr / real (2 * length ms))
           \<and> 0.85 * sum_list ms \<le> sum_list (take (Suc k) ms)
           \<and> (\<forall>j<k. sum_list (take (Suc j) ms) < 0.85 * sum_list ms)"
proof -
  define P where "P k \<longleftrightarrow> k < length ms \<and> 0.85 * sum_list ms \<le> sum_list (take (Suc k) ms)" for k
  have tot: "0 \<le> sum_list ms" using nonneg by (intro sum_list_nonneg) auto
  have "P (length ms - 1)"
    using ne tot by (simp add: P_def)
  then have ex: "\<exists>k. P k" ..
  define k where "k = (LEAST k. P k)"
  have Pk: "P k" unfolding k_def using ex by (rule LeastI_ex)
  have least: "\<And>j. j < k \<Longrightarrow> \<not> P j" unfolding k_def by (rule not_less_Least)
  have klt: "k < length ms" using Pk by (simp add: P_def)
  have reach: "sum_list ms * 0.85 \<le> 0 + sum_list (take (Suc k) ms)"
    using Pk by (simp add: P_def mult.commute)
  have below: "\<forall>j<k. 0 + sum_list (take (Suc j) ms) < sum_list ms * 0.85"
  proof (intro allI impI)
    fix j assume "j < k"
    then have "\<not> P j" "j < length ms" using least klt by auto
    then show "0 + sum_list (take (Suc j) ms) < sum_list ms * 0.85"
      by (simp add: P_def mult.commute not_le)
  qed
  have "calculateSpectralRolloff (map Fin ms) sr = Fin (real (0 + k) * sr / real (length ms * 2))"
    unfolding calculateSpectralRolloff_Fin
    using ne by (intro rolloffLoop_first[OF klt reach below]) simp
  then show ?thesis
    using klt reach below by (intro exI[of _ k]) (simp add: mult.commute)
qed

lemma rolloff_silent:
  assumes "\<forall>m\<in>set ms. m = 0"
  shows "calculateSpectralRolloff (map Fin ms) sr = Fin 0"
proof (cases ms)
  case Nil
  then show ?thesis by (simp add: calculateSpectralRolloff_def)
next
  case (Cons x xs)
  have z: "sum_list ms = 0" using assms by (induction ms) simp_all
  have x0: "x = 0" using assms Cons by simp
  show ?thesis
    unfolding calculateSpectralRolloff_Fin z
    by (simp add: Cons x0 Let_def)
qed

subsection \<open>The frames of a longer window\<close>

lemma performFFTLoop_eq:
  "i \<le> (length data + 1) div 2 \<Longrightarrow>
   performFFTLoop data i ms = ms @ map (\<lambda>j. \<bar>data ! j\<bar>) [i..<(length data + 1) div 2]"
proof (induction data i ms rule: performFFTLoop.induct)
  case (1 data i ms)
  show ?case
  proof (cases "real i < real (length data) / 2")
    case True
    then have lt: "i < (length data + 1) div 2" by linarith
    then have "performFFTLoop data (i + 1) (ms @ [\<bar>data ! i\<bar>])
               = (ms @ [\<bar>data ! i\<bar>]) @ map (\<lambda>j. \<bar>data ! j\<bar>) [i + 1..<(length data + 1) div 2]"
      using True by (intro "1.IH") simp_all
    then show ?thesis using True lt by (subst performFFTLoop.simps) (simp add: upt_conv_Cons)
  next
    case False
    then have "i = (length data + 1) div 2" using "1.prems" by linarith
    then show ?thesis using False by (subst performFFTLoop.simps) simp
  qed
qed

lemma performFFT_eq: "performFFT data = map (\<lambda>j. \<bar>data ! j\<bar>) [0..<(length data + 1) div 2]"
  by (simp add: performFFT_def performFFTLoop_eq del: performFFTLoop.simps)

lemma slice_window:
  "int i < int (length cd) - 2048 \<Longrightarrow> length (slice cd (int i) (int i + 2048)) = 2048"
  by (simp add: slice_def Let_def min_def)

subsection \<open>Accumulating and averaging\<close>

lemma addSpec_Fin:
  "length zs = length spec \<Longrightarrow> addSpec (map Fin zs) spec = map Fin (map2 (+) zs spec)"
  by (induction zs spec rule: list_induct2) simp_all

lemma window_frame:
  assumes "int i < int (length cd) - 2048"
  shows "performFFT (slice cd (int i) (int i + 2048)) = map (\<lambda>j. \<bar>cd ! (i + j)\<bar>) [0..<1024]"
proof -
  have len: "length (slice cd (int i) (int i + 2048)) = 2048" by (rule slice_window[OF assms])
  have sl: "slice cd (int i) (int i + 2048) = take 2048 (drop i cd)"
    using assms by (simp add: slice_def Let_def min_def)
  have "performFFT (slice cd (int i) (int i + 2048))
        = map (\<lambda>j. \<bar>slice cd (int i) (int i + 2048) ! j\<bar>) [0..<1024]"
    by (simp add: performFFT_eq len)
  also have "\<dots> = map (\<lambda>j. \<bar>cd ! (i + j)\<bar>) [0..<1024]"
  proof (rule map_cong[OF refl])
    fix j assume "j \<in> set [0..<1024]"
    then have j: "j < 1024" by simp
    have "i + j < length cd" using assms j by linarith
    then show "\<bar>slice cd (int i) (int i + 2048) ! j\<bar> = \<bar>cd ! (i + j)\<bar>"
      using j by (simp add: sl)
  qed
  finally show ?thesis .
qed

lemma spectrumLoop_windows:
  "i = w * 65536 \<Longrightarrow> w < 50 \<Longrightarrow>
   spectrumLoop cd i w acc
   = acc @ map (\<lambda>k. map (\<lambda>j. \<bar>cd ! (k * 65536 + j)\<bar>) [0..<1024])
               (filter (\<lambda>k. k * 65536 + 2048 < length cd) [w..<50])"
proof (induction cd i w acc rule: spectrumLoop.induct)
  case (1 cd i w acc)
  let ?P = "\<lambda>k. k * 65536 + 2048 < length cd"
  let ?F = "\<lambda>k. map (\<lambda>j. \<bar>cd ! (k * 65536 + j)\<bar>) [0..<1024]"
  have cond: "(int i < int (length cd) - 2048) = ?P w" using "1.prems"(1) by auto
  show ?case
  proof (cases "?P w")
    case True
    then have c: "int i < int (length cd) - 2048" using cond by simp
    have frame: "performFFT (slice cd (int i) (int i + 2048)) = ?F w"
      using window_frame[OF c] "1.prems"(1) by simp
    have upt: "[w..<50] = w # [Suc w..<50]" using "1.prems"(2) by (simp add: upt_conv_Cons)
    show ?thesis
    proof (cases "w + 1 \<ge> 50")
      case last: True
      then have "Suc w = 50" using "1.prems"(2) by simp
      then have "filter ?P [w..<50] = [w]" using True upt by simp
      moreover have "spectrumLoop cd i w acc = acc @ [?F w]"
        using c last frame by (subst spectrumLoop.simps) (simp add: Let_def)
      ultimately show ?thesis by simp
    next
      case False
      have ih: "spectrumLoop cd (i + 2048 * 32) (w + 1) (acc @ [performFFT (slice cd (int i) (int i + 2048))])
            = (acc @ [performFFT (slice cd (int i) (int i + 2048))]) @ map ?F (filter ?P [w + 1..<50])"
        using False "1.prems" by (intro "1.IH"[OF c refl refl refl refl False]) simp_all
      have "spectrumLoop cd i w acc
            = spectrumLoop cd (i + 2048 * 32) (w + 1) (acc @ [performFFT (slice cd (int i) (int i + 2048))])"
        using c False by (subst spectrumLoop.simps) (simp add: Let_def)
      also have "\<dots> = (acc @ [?F w]) @ map ?F (filter ?P [Suc w..<50])"
        using ih frame by simp
      also have "\<dots> = acc @ map ?F (filter ?P [w..<50])"
        using True by (subst upt) simp
      finally show ?thesis .
    qed
  next
    case False
    then have c: "\<not> int i < int (length cd) - 2048" using cond by simp
    have "\<And>k. k \<in> set [w..<50] \<Longrightarrow> \<not> ?P k"
    proof -
      fix k assume "k \<in> set [w..<50]"
      then have "w \<le> k" by simp
      then have "w * 65536 \<le> k * 65536" by simp
      then show "\<not> ?P k" using False by linarith
    qed
    then have "filter ?P [w..<50] = []" by (simp add: filter_empty_conv)
    moreover have "spectrumLoop cd i w acc = acc" using c by (subst spectrumLoop.simps) simp
    ultimately show ?thesis by simp
  qed
qed

lemma spectrumLoop_windowStarts:
  "spectrumLoop cd 0 0 [] = map (\<lambda>i. map (\<lambda>j. \<bar>cd ! (i + j)\<bar>) [0..<1024]) (windowStarts cd)"
  by (simp add: spectrumLoop_windows windowStarts_def comp_def)

lemma foldl_addSpec_frames:
  "length zs = n \<Longrightarrow>
   foldl addSpec (map Fin zs) (map (\<lambda>i. map (\<lambda>j. a i j) [0..<n]) is)
   = map Fin (map (\<lambda>j. zs ! j + sum_list (map (\<lambda>i. a i j) is)) [0..<n])"
proof (induction "is" arbitrary: zs)
  case Nil
  have "map (\<lambda>j. zs ! j) [0..<length zs] = zs" by (rule map_nth)
  then show ?case using Nil by simp
next
  case (Cons i "is")
  let ?zs = "map2 (+) zs (map (\<lambda>j. a i j) [0..<n])"
  have len: "length zs = length (map (\<lambda>j. a i j) [0..<n])" using Cons.prems by simp
  have l2: "length ?zs = n" using Cons.prems by simp
  have nth: "\<And>j. j < n \<Longrightarrow> ?zs ! j = zs ! j + a i j" using Cons.prems by simp
  have "foldl addSpec (map Fin zs) (map (\<lambda>i. map (\<lambda>j. a i j) [0..<n]) (i # is))
        = foldl addSpec (map Fin ?zs) (map (\<lambda>i. map (\<lambda>j. a i j) [0..<n]) is)"
    by (simp add: addSpec_Fin[OF len])
  also have "\<dots> = map Fin (map (\<lambda>j. ?zs ! j + sum_list (map (\<lambda>i. a i j) is)) [0..<n])"
    by (rule Cons.IH[OF l2])
  also have "\<dots> = map Fin (map (\<lambda>j. zs ! j + sum_list (map (\<lambda>i. a i j) (i # is))) [0..<n])"
  proof -
    have "map (\<lambda>j. ?zs ! j + sum_list (map (\<lambda>i. a i j) is)) [0..<n]
          = map (\<lambda>j. zs ! j + sum_list (map (\<lambda>i. a i j) (i # is))) [0..<n]"
      by (rule map_cong[OF refl]) (simp add: nth add.assoc)
    then show ?thesis by simp
  qed
  finally show ?case .
qed

lemma windowStarts_nonempty: "2048 < length cd \<Longrightarrow> windowStarts cd \<noteq> []"
proof -
  assume h: "2048 < length cd"
  have "[0..<50] = 0 # [Suc 0..<50]" by (simp add: upt_conv_Cons)
  then have "0 \<in> set (filter (\<lambda>k. k * 65536 + 2048 < length cd) [0..<50])"
    using h by simp
  then show ?thesis unfolding windowStarts_def by (metis empty_iff list.set(1) map_is_Nil_conv)
qed

lemma avgSpectrum_averagedMagnitudes:
  assumes "2048 < length cd"
  shows "spectrum (analyzeSpectrum cd sr) = map Fin (averagedMagnitudes cd)"
proof -
  let ?ws = "windowStarts cd"
  have L: "0 < real (length ?ws)" using windowStarts_nonempty[OF assms] by simp
  have z: "replicate 1024 (Fin 0) = map Fin (replicate 1024 (0::real))" by simp
  have acc: "foldl addSpec (replicate 1024 (Fin 0)) (spectrumLoop cd 0 0 [])
        = map Fin (map (\<lambda>j. replicate 1024 (0::real) ! j + sum_list (map (\<lambda>i. \<bar>cd ! (i + j)\<bar>) ?ws)) [0..<1024])"
    unfolding spectrumLoop_windowStarts z
    by (rule foldl_addSpec_frames) simp
  have acc': "map (\<lambda>j. replicate 1024 (0::real) ! j + sum_list (map (\<lambda>i. \<bar>cd ! (i + j)\<bar>) ?ws)) [0..<1024]
        = map (\<lambda>j. sum_list (map (\<lambda>i. \<bar>cd ! (i + j)\<bar>) ?ws)) [0..<1024]"
    by (rule map_cong[OF refl]) simp
  have len: "length (spectrumLoop cd 0 0 []) = length ?ws"
    by (simp add: spectrumLoop_windowStarts)
  show ?thesis
    using L by (simp add: analyzeSpectrum_def Let_def acc acc' len averagedMagnitudes_def comp_def)
qed

lemma averagedMagnitudes_nonneg: "\<forall>m\<in>set (averagedMagnitudes cd). 0 \<le> m"
  by (auto simp: averagedMagnitudes_def intro!: divide_nonneg_nonneg sum_list_nonneg)

subsection \<open>Centroid and brightness\<close>

lemma sum_list_upt_Suc_shift:
  "sum_list (map f [0..<Suc n]) = f 0 + sum_list (map (\<lambda>j. f (Suc j)) [0..<n])"
proof -
  have "[0..<Suc n] = 0 # map Suc [0..<n]"
    by (simp add: upt_conv_Cons map_Suc_upt del: upt_Suc)
  then show ?thesis by (simp add: comp_def del: upt_Suc)
qed

lemma centroidLoop_Fin:
  "0 < n \<Longrightarrow>
   centroidLoop (map Fin xs) sr n i (Fin w) (Fin t)
   = (Fin (w + sum_list (map (\<lambda>j. real (i + j) * sr / real (n * 2) * xs ! j) [0..<length xs])),
      Fin (t + sum_list xs))"
proof (induction xs arbitrary: i w t)
  case Nil
  then show ?case by simp
next
  case (Cons x xs)
  have "centroidLoop (map Fin (x # xs)) sr n i (Fin w) (Fin t)
        = centroidLoop (map Fin xs) sr n (i + 1) (Fin (w + real i * sr / real (n * 2) * x)) (Fin (t + x))"
    using Cons.prems by (simp add: Let_def)
  also have "\<dots> = (Fin (w + real i * sr / real (n * 2) * x
                        + sum_list (map (\<lambda>j. real (i + 1 + j) * sr / real (n * 2) * xs ! j) [0..<length xs])),
                   Fin (t + x + sum_list xs))"
    by (rule Cons.IH[OF Cons.prems])
  also have "\<dots> = (Fin (w + sum_list (map (\<lambda>j. real (i + j) * sr / real (n * 2) * (x # xs) ! j) [0..<length (x # xs)])),
                   Fin (t + sum_list (x # xs)))"
    by (simp add: sum_list_upt_Suc_shift add_ac del: upt_Suc)
  finally show ?case .
qed

lemma sum_list_nth_upt: "sum_list (map (\<lambda>j. ms ! j) [0..<length ms]) = sum_list (ms::real list)"
  by (simp add: map_nth)

lemma weighted_bounds:
  assumes nonneg: "\<forall>m\<in>set ms. (0::real) \<le> m" and sr: "0 < sr"
  shows "0 \<le> sum_list (map (\<lambda>j. real j * sr / real (2 * length ms) * ms ! j) [0..<length ms])"
    and "sum_list (map (\<lambda>j. real j * sr / real (2 * length ms) * ms ! j) [0..<length ms])
         \<le> sr / 2 * sum_list ms"
proof -
  have term0: "0 \<le> real j * sr / real (2 * length ms) * ms ! j" if "j < length ms" for j
    using that nonneg sr by (intro mult_nonneg_nonneg divide_nonneg_nonneg) simp_all
  show "0 \<le> sum_list (map (\<lambda>j. real j * sr / real (2 * length ms) * ms ! j) [0..<length ms])"
  proof (rule sum_list_nonneg)
    fix x assume "x \<in> set (map (\<lambda>j. real j * sr / real (2 * length ms) * ms ! j) [0..<length ms])"
    then obtain j where j: "j < length ms" and x: "x = real j * sr / real (2 * length ms) * ms ! j"
      by auto
    show "0 \<le> x" unfolding x by (rule term0[OF j])
  qed
  have coef: "real j * sr / real (2 * length ms) \<le> sr / 2" if "j < length ms" for j
  proof -
    have "real j * sr \<le> real (length ms) * sr"
      using that sr by (intro mult_right_mono) simp_all
    then have "real j * sr / real (2 * length ms) \<le> real (length ms) * sr / real (2 * length ms)"
      by (intro divide_right_mono) simp_all
    also have "\<dots> = sr / 2"
    proof -
      have "ms \<noteq> []" using that by auto
      then show ?thesis by simp
    qed
    finally show ?thesis .
  qed
  have "sum_list (map (\<lambda>j. real j * sr / real (2 * length ms) * ms ! j) [0..<length ms])
        \<le> sum_list (map (\<lambda>j. sr / 2 * ms ! j) [0..<length ms])"
  proof (rule sum_list_mono)
    fix j assume "j \<in> set [0..<length ms]"
    then have j: "j < length ms" by simp
    then have "0 \<le> ms ! j" using nonneg by simp
    then show "real j * sr / real (2 * length ms) * ms ! j \<le> sr / 2 * ms ! j"
      using coef[OF j] by (intro mult_right_mono)
  qed
  also have "\<dots> = sr / 2 * sum_list (map (\<lambda>j. ms ! j) [0..<length ms])"
    by (rule sum_list_const_mult)
  also have "\<dots> = sr / 2 * sum_list ms"
    by (simp only: sum_list_nth_upt)
  finally show "sum_list (map (\<lambda>j. real j * sr / real (2 * length ms) * ms ! j) [0..<length ms])
         \<le> sr / 2 * sum_list ms" .
qed

lemma calculateSpectralCentroid_Fin:
  assumes nonneg: "\<forall>m\<in>set ms. 0 \<le> m"
  shows "calculateSpectralCentroid (map Fin ms) sr = Fin (weightedMeanBinFrequency ms sr)"
proof (cases ms)
  case Nil
  then show ?thesis by (simp add: calculateSpectralCentroid_def weightedMeanBinFrequency_def)
next
  case (Cons x xs)
  then have n: "0 < length ms" by simp
  have tot: "0 \<le> sum_list ms" using nonneg by (intro sum_list_nonneg) auto
  have loop: "centroidLoop (map Fin ms) sr (length ms) 0 (Fin 0) (Fin 0)
        = (Fin (sum_list (map (\<lambda>j. real j * sr / real (2 * length ms) * ms ! j) [0..<length ms])),
           Fin (sum_list ms))"
    using centroidLoop_Fin[OF n, of ms sr 0 0 0] by (simp add: mult.commute)
  show ?thesis
  proof (cases "sum_list ms = 0")
    case True
    then show ?thesis
      by (simp add: calculateSpectralCentroid_def loop weightedMeanBinFrequency_def)
  next
    case False
    then have "0 < sum_list ms" using tot by simp
    then show ?thesis
      by (simp add: calculateSpectralCentroid_def loop weightedMeanBinFrequency_def)
  qed
qed

lemma weightedMeanBinFrequency_bounds:
  assumes nonneg: "\<forall>m\<in>set ms. 0 \<le> m" and sr: "0 < sr"
  shows "0 \<le> weightedMeanBinFrequency ms sr \<and> weightedMeanBinFrequency ms sr \<le> sr / 2"
proof (cases "sum_list ms = 0")
  case True
  then show ?thesis using sr by (simp add: weightedMeanBinFrequency_def)
next
  case False
  have tot: "0 \<le> sum_list ms" using nonneg by (intro sum_list_nonneg) auto
  then have pos: "0 < sum_list ms" using False by simp
  show ?thesis
    using weighted_bounds[OF nonneg sr] pos False
    by (simp add: weightedMeanBinFrequency_def divide_le_eq)
qed

lemma analyzeSpectrum_centroid_brightness:
  assumes sr: "0 < sr"
  shows "\<exists>c. centroid (analyzeSpectrum cd sr) = Fin c
           \<and> brightness (analyzeSpectrum cd sr) = Fin (c / (sr / 2))
           \<and> 0 \<le> c / (sr / 2) \<and> c / (sr / 2) \<le> 1
           \<and> (if 2048 < length cd
               then spectrum (analyzeSpectrum cd sr) = map Fin (averagedMagnitudes cd)
                    \<and> c = weightedMeanBinFrequency (averagedMagnitudes cd) sr
               else spectrum (analyzeSpectrum cd sr) = replicate 1024 NaN \<and> c = 0)"
proof -
  have cen: "centroid (analyzeSpectrum cd sr) = calculateSpectralCentroid (spectrum (analyzeSpectrum cd sr)) sr"
    by (simp add: analyzeSpectrum_def Let_def)
  have bri: "brightness (analyzeSpectrum cd sr) = jdiv (centroid (analyzeSpectrum cd sr)) (Fin (sr / 2))"
    by (simp add: analyzeSpectrum_def Let_def)
  show ?thesis
  proof (cases "2048 < length cd")
    case True
    let ?ms = "averagedMagnitudes cd"
    have sp: "spectrum (analyzeSpectrum cd sr) = map Fin ?ms"
      by (rule avgSpectrum_averagedMagnitudes[OF True])
    have nn: "\<forall>m\<in>set ?ms. 0 \<le> m" by (rule averagedMagnitudes_nonneg)
    have c: "centroid (analyzeSpectrum cd sr) = Fin (weightedMeanBinFrequency ?ms sr)"
      unfolding cen sp by (rule calculateSpectralCentroid_Fin[OF nn])
    have b: "0 \<le> weightedMeanBinFrequency ?ms sr" "weightedMeanBinFrequency ?ms sr \<le> sr / 2"
      using weightedMeanBinFrequency_bounds[OF nn sr] by simp_all
    show ?thesis
      using True sr sp c b by (intro exI[of _ "weightedMeanBinFrequency ?ms sr"]) (auto simp: bri)
  next
    case False
    then have short: "length cd \<le> 2048" by simp
    show ?thesis
      using analyzeSpectrum_no_frame[OF short sr] avgSpectrum_no_frame[OF short, of sr] False sr
      by (intro exI[of _ 0]) simp
  qed
qed

lemma sum_list_index_scaled:
  "sum_list (map (\<lambda>i. real i * a) [0..<n]) = a * (real n * (real n - 1) / 2)"
  by (induction n) (simp_all add: field_simps)

lemma windowStarts_sample: "windowStarts (replicate 2049 (1 / 2)) = [0]"
proof -
  have u: "[0..<50] = 0 # [Suc 0..<50]" by (simp add: upt_conv_Cons)
  have "filter (\<lambda>k. k * 65536 + 2048 < 2049) [Suc 0..<50] = []"
    by (simp add: filter_empty_conv)
  then show ?thesis by (simp add: windowStarts_def u del: upt_Suc)
qed

lemma averagedMagnitudes_sample:
  "averagedMagnitudes (replicate 2049 (1 / 2)) = replicate 1024 (1 / 2)"
proof -
  have "map (\<lambda>j. \<bar>replicate 2049 (1 / 2 :: real) ! j\<bar>) [0..<1024] = map (\<lambda>j. 1 / 2) [0..<1024]"
    by (rule map_cong[OF refl]) simp
  then show ?thesis
    by (simp add: averagedMagnitudes_def windowStarts_sample map_replicate_const)
qed

lemma weightedMeanBinFrequency_sample:
  "weightedMeanBinFrequency (replicate 1024 (1 / 2)) 44100 = 44100 * 1023 / 4096"
proof -
  have m: "map (\<lambda>i. real i * 44100 / real (2 * 1024) * replicate 1024 (1 / 2 :: real) ! i) [0..<1024]
        = map (\<lambda>i. real i * (44100 / 4096)) [0..<1024]"
    by (rule map_cong[OF refl]) simp
  have "sum_list (map (\<lambda>i. real i * 44100 / real (2 * 1024) * replicate 1024 (1 / 2 :: real) ! i) [0..<1024])
        = sum_list (map (\<lambda>i. real i * (44100 / 4096)) [0..<1024])"
    by (simp only: m)
  also have "\<dots> = 44100 / 4096 * (real 1024 * (real 1024 - 1) / 2)"
    by (rule sum_list_index_scaled)
  finally have num: "sum_list (map (\<lambda>i. real i * 44100 / real (2 * 1024) * replicate 1024 (1 / 2 :: real) ! i) [0..<1024])
        = 44100 / 4096 * (real 1024 * (real 1024 - 1) / 2)" .
  have tot: "sum_list (replicate 1024 (1 / 2 :: real)) = 512"
    by (simp add: sum_list_replicate)
  show ?thesis
    unfolding weightedMeanBinFrequency_def length_replicate num tot by simp
qed

text \<open>
  Claim C4. For an averaged magnitude spectrum (magnitudes are not negative, and there
  is at least one bin) and any sample rate, the rolloff is the frequency
  \<open>k * sampleRate / (2 * bins)\<close> of the lowest bin \<open>k\<close> at which the cumulative energy
  reaches 85% of the total: the sum of the bins up to \<open>k\<close> is at least 0.85 of the total
  and no earlier bin reaches it. For a silent spectrum the rolloff is 0.
\<close>

theorem spectral_rolloff_lowest_bin:
  "(\<forall>m\<in>set ms. 0 \<le> m) \<Longrightarrow> ms \<noteq> [] \<Longrightarrow>
   (\<exists>k<length ms.
       calculateSpectralRolloff (map Fin ms) sr = Fin (real k * sr / real (2 * length ms))
       \<and> 0.85 * sum_list ms \<le> sum_list (take (Suc k) ms)
       \<and> (\<forall>j<k. sum_list (take (Suc j) ms) < 0.85 * sum_list ms))
   \<and> ((\<forall>m\<in>set ms. m = 0) \<longrightarrow> calculateSpectralRolloff (map Fin ms) sr = Fin 0)"
  using rolloff_first_bin[of ms sr] rolloff_silent[of ms sr] by blast

theorem spectral_rolloff_lowest_bin_witness:
  "(\<exists>k<length sampleSpectrum.
       calculateSpectralRolloff (map Fin sampleSpectrum) 8
         = Fin (real k * 8 / real (2 * length sampleSpectrum))
       \<and> 0.85 * sum_list sampleSpectrum \<le> sum_list (take (Suc k) sampleSpectrum)
       \<and> (\<forall>j<k. sum_list (take (Suc j) sampleSpectrum) < 0.85 * sum_list sampleSpectrum))
   \<and> calculateSpectralRolloff (map Fin [0, 0, 0, 0]) 8 = Fin 0"
proof -
  have a: "\<forall>m\<in>set sampleSpectrum. 0 \<le> m" and b: "sampleSpectrum \<noteq> []"
    by (simp_all add: sampleSpectrum_def)
  have z: "\<forall>m\<in>set [0, 0, 0, 0 :: real]. 0 \<le> m" and n: "[0, 0, 0, 0 :: real] \<noteq> []"
    and s: "\<forall>m\<in>set [0, 0, 0, 0 :: real]. m = 0"
    by simp_all
  show ?thesis
    using spectral_rolloff_lowest_bin[OF a b, of 8] spectral_rolloff_lowest_bin[OF z n, of 8] s
    by blast
qed

lemma spectral_rolloff_sample:
  "calculateSpectralRolloff (map Fin sampleSpectrum) 8 = Fin 3
   \<and> calculateSpectralRolloff (map Fin [0, 0, 0, 0]) 8 = Fin 0"
  by (simp add: sampleSpectrum_def calculateSpectralRolloff_def Let_def)

text \<open>
  Claim C5. For every window and every positive sample rate, \<open>analyzeSpectrum\<close> returns a
  finite centroid \<open>c\<close> and the brightness \<open>c / (sampleRate / 2)\<close>, which lies between 0
  and 1. When at least one frame fits (more than 2048 samples), the returned spectrum is
  the bin-wise average, over the frames of the window, of the magnitudes of each
  frame's first 1024 samples, and \<open>c\<close> is the magnitude-weighted mean bin frequency of
  that average (0 when its total is 0). When no frame fits, every bin is \<open>NaN\<close> and \<open>c\<close>
  is 0.
\<close>

theorem brightness_in_unit_interval:
  "0 < sr \<Longrightarrow>
   \<exists>c. centroid (analyzeSpectrum cd sr) = Fin c
       \<and> brightness (analyzeSpectrum cd sr) = Fin (c / (sr / 2))
       \<and> 0 \<le> c / (sr / 2) \<and> c / (sr / 2) \<le> 1
       \<and> (if 2048 < length cd
           then spectrum (analyzeSpectrum cd sr) = map Fin (averagedMagnitudes cd)
                \<and> c = weightedMeanBinFrequency (averagedMagnitudes cd) sr
           else spectrum (analyzeSpectrum cd sr) = replicate 1024 NaN \<and> c = 0)"
  by (rule analyzeSpectrum_centroid_brightness)

theorem brightness_in_unit_interval_witness:
  "spectrum (analyzeSpectrum (replicate 2049 (1 / 2)) 44100) = map Fin (replicate 1024 (1 / 2))
   \<and> centroid (analyzeSpectrum (replicate 2049 (1 / 2)) 44100) = Fin (44100 * 1023 / 4096)
   \<and> brightness (analyzeSpectrum (replicate 2049 (1 / 2)) 44100) = Fin (1023 / 2048)"
  using brightness_in_unit_interval[of 44100 "replicate 2049 (1 / 2)"]
  by (auto simp: averagedMagnitudes_sample weightedMeanBinFrequency_sample)

text \<open>
  Claim C9. For a window of at most 2048 samples no frame fits: the averaged spectrum is
  \<open>0/0 = NaN\<close> in every bin, and \<open>analyzeSpectrum\<close> returns (it has no failing branch)
  centroid 0, rolloff 0 and brightness 0, for the positive sample rate of an audio
  buffer.
\<close>

theorem short_window_zero:
  "length cd \<le> 2048 \<Longrightarrow> 0 < sr \<Longrightarrow>
   centroid (analyzeSpectrum cd sr) = Fin 0 \<and> rolloff (analyzeSpectrum cd sr) = Fin 0
   \<and> brightness (analyzeSpectrum cd sr) = Fin 0"
  by (rule analyzeSpectrum_no_frame)

theorem short_window_zero_witness:
  "centroid (analyzeSpectrum [1 / 2, - 1 / 4, 1 / 8] 44100) = Fin 0
   \<and> rolloff (analyzeSpectrum [1 / 2, - 1 / 4, 1 / 8] 44100) = Fin 0
   \<and> brightness (analyzeSpectrum [1 / 2, - 1 / 4, 1 / 8] 44100) = Fin 0"
  by (rule short_window_zero) simp_all

section \<open>Properties of the analysis run\<close>

subsection \<open>Trimming\<close>




subsection \<open>The pitch loop\<close>

lemma accepted_finite: "accepted p \<Longrightarrow> \<exists>f. p = Fin f \<and> 0 < f \<and> f < 2000"
  by (cases p) (simp_all add: accepted_def jgt_def)

lemma pitchSeries_Suc:
  "pitchSeries env tc sr (Suc fr)
   = pitchSeries env tc sr fr
     @ (if accepted (detectPitch (analyzer env) (pitchFrame tc fr))
        then [(detectPitch (analyzer env) (pitchFrame tc fr), jdiv (Fin (real (fr * 262144))) (Fin sr))]
        else [])"
  by (simp add: pitchSeries_def)

lemma pitchLoop_error:
  "pitchLoop env tc sr i fr c ps ts = Inl e
   \<Longrightarrow> e = cancelledError \<and> (c \<or> (\<exists>k. clicked env (PitchYield k)))"
proof (induction env tc sr i fr c ps ts rule: pitchLoop.induct)
  case (1 env tc sr i fr c ps ts)
  show ?case
  proof (cases "int i < int (length tc) - 4096")
    case False
    then show ?thesis using "1.prems" by (subst (asm) pitchLoop.simps) simp
  next
    case True
    show ?thesis
    proof (cases c)
      case True
      then show ?thesis using "1.prems" \<open>int i < int (length tc) - 4096\<close>
        by (subst (asm) pitchLoop.simps) simp
    next
      case False
      let ?pitch = "detectPitch (analyzer env) (slice tc (int i) (int i + 4096))"
      let ?keep = "accepted ?pitch"
      let ?ps = "if ?keep then ps @ [?pitch] else ps"
      let ?ts = "if ?keep then ts @ [jdiv (Fin (real i)) (Fin sr)] else ts"
      let ?c = "if (fr + 1) mod 5 = 0 then c \<or> clicked env (PitchYield (fr + 1)) else c"
      have unfold: "pitchLoop env tc sr i fr c ps ts
            = (if fr + 1 \<ge> 20 then Inr (?c, ?ps, ?ts, fr + 1)
               else pitchLoop env tc sr (i + 4096 * 64) (fr + 1) ?c ?ps ?ts)"
        using True False by (subst pitchLoop.simps) (simp add: Let_def)
      show ?thesis
      proof (cases "fr + 1 \<ge> 20")
        case True
        then show ?thesis using "1.prems" unfold by simp
      next
        case nb: False
        then have rec: "pitchLoop env tc sr (i + 4096 * 64) (fr + 1) ?c ?ps ?ts = Inl e"
          using "1.prems" unfold by simp
        have "e = cancelledError \<and> (?c \<or> (\<exists>k. clicked env (PitchYield k)))"
          using True False nb rec by (intro "1.IH"[OF True False refl refl refl refl refl refl refl]) simp_all
        then show ?thesis using False by (auto split: if_splits)
      qed
    qed
  qed
qed

lemma pitchLoop_result:
  "pitchLoop env tc sr i fr c ps ts = Inr (c', ps', ts', fr')
   \<Longrightarrow> i = fr * 262144 \<Longrightarrow> fr < 20 \<Longrightarrow> length ps = length ts
   \<Longrightarrow> zip ps ts = pitchSeries env tc sr fr
   \<Longrightarrow> \<forall>k<fr. int (k * 262144) < int (length tc) - 4096
   \<Longrightarrow> fr' \<le> 20 \<and> length ps' = length ts' \<and> zip ps' ts' = pitchSeries env tc sr fr'
       \<and> (\<forall>k<fr'. int (k * 262144) < int (length tc) - 4096)
       \<and> (fr' < 20 \<longrightarrow> \<not> int (fr' * 262144) < int (length tc) - 4096)"
proof (induction env tc sr i fr c ps ts rule: pitchLoop.induct)
  case (1 env tc sr i fr c ps ts)
  note prems = "1.prems"
  show ?case
  proof (cases "int i < int (length tc) - 4096")
    case False
    then have "(Inr (c, ps, ts, fr) :: jsError + _) = Inr (c', ps', ts', fr')"
      using prems(1) by (subst (asm) pitchLoop.simps) simp
    then show ?thesis using prems False by simp
  next
    case True
    have nc: "\<not> c" using prems(1) True by (subst (asm) pitchLoop.simps) (auto split: if_splits)
    let ?pitch = "detectPitch (analyzer env) (slice tc (int i) (int i + 4096))"
    let ?keep = "accepted ?pitch"
    let ?ps = "if ?keep then ps @ [?pitch] else ps"
    let ?ts = "if ?keep then ts @ [jdiv (Fin (real i)) (Fin sr)] else ts"
    let ?c = "if (fr + 1) mod 5 = 0 then c \<or> clicked env (PitchYield (fr + 1)) else c"
    have unfold: "pitchLoop env tc sr i fr c ps ts
          = (if fr + 1 \<ge> 20 then Inr (?c, ?ps, ?ts, fr + 1)
             else pitchLoop env tc sr (i + 4096 * 64) (fr + 1) ?c ?ps ?ts)"
      using True nc by (subst pitchLoop.simps) (simp add: Let_def)
    have frame: "slice tc (int i) (int i + 4096) = pitchFrame tc fr"
      using prems(2) by (simp add: pitchFrame_def)
    have len: "length ?ps = length ?ts" using prems(4) by simp
    have series: "zip ?ps ?ts = pitchSeries env tc sr (fr + 1)"
      unfolding frame using prems(4,5) prems(2) by (simp add: pitchSeries_Suc)
    have range: "\<forall>k<fr + 1. int (k * 262144) < int (length tc) - 4096"
    proof (intro allI impI)
      fix k assume "k < fr + 1"
      then consider "k < fr" | "k = fr" by linarith
      then show "int (k * 262144) < int (length tc) - 4096"
        using prems(6) True prems(2) by cases simp_all
    qed
    show ?thesis
    proof (cases "fr + 1 \<ge> 20")
      case True
      have u2: "pitchLoop env tc sr i fr c ps ts = Inr (?c, ?ps, ?ts, fr + 1)"
        by (subst unfold) (simp only: True if_True)
      have "(Inr (?c, ?ps, ?ts, fr + 1) :: jsError + _) = Inr (c', ps', ts', fr')"
        by (rule trans[OF u2[symmetric] prems(1)])
      then have eqs: "ps' = ?ps" "ts' = ?ts" "fr' = fr + 1" by auto
      show ?thesis unfolding eqs using True prems(3) len series range by simp
    next
      case False
      have u3: "pitchLoop env tc sr i fr c ps ts
                = pitchLoop env tc sr (i + 4096 * 64) (fr + 1) ?c ?ps ?ts"
        by (subst unfold) (simp only: False if_False)
      have rec: "pitchLoop env tc sr (i + 4096 * 64) (fr + 1) ?c ?ps ?ts = Inr (c', ps', ts', fr')"
        by (rule trans[OF u3[symmetric] prems(1)])
      have i': "i + 4096 * 64 = (fr + 1) * 262144" using prems(2) by simp
      have lt: "fr + 1 < 20" using False by simp
      show ?thesis
        by (rule "1.IH"[OF True nc refl refl refl refl refl refl refl False rec i' lt len series range])
    qed
  qed
qed

lemma pitchLoop_series:
  "case pitchLoop env tc sr 0 0 False [] [] of
     Inl e \<Rightarrow> e = cancelledError \<and> (\<exists>k. clicked env (PitchYield k))
   | Inr (c, ps, ts, fr) \<Rightarrow>
       fr \<le> 20
       \<and> (\<forall>k<fr. int (k * 262144) < int (length tc) - 4096)
       \<and> (fr < 20 \<longrightarrow> \<not> int (fr * 262144) < int (length tc) - 4096)
       \<and> length ps = length ts
       \<and> zip ps ts = pitchSeries env tc sr fr
       \<and> list_all (\<lambda>p. \<exists>f. p = Fin f \<and> 0 < f \<and> f < 2000) ps"
proof (cases "pitchLoop env tc sr 0 0 False [] []")
  case (Inl e)
  then show ?thesis using pitchLoop_error[OF Inl] by simp
next
  case (Inr r)
  obtain c ps ts fr where r: "r = (c, ps, ts, fr)" by (cases r) auto
  have res: "pitchLoop env tc sr 0 0 False [] [] = Inr (c, ps, ts, fr)" using Inr r by simp
  have inv: "fr \<le> 20 \<and> length ps = length ts \<and> zip ps ts = pitchSeries env tc sr fr
       \<and> (\<forall>k<fr. int (k * 262144) < int (length tc) - 4096)
       \<and> (fr < 20 \<longrightarrow> \<not> int (fr * 262144) < int (length tc) - 4096)"
    by (rule pitchLoop_result[OF res]) (simp_all add: pitchSeries_def)
  have len: "length ps = length ts" using inv by blast
  have z: "zip ps ts = pitchSeries env tc sr fr" using inv by blast
  have "map fst (zip ps ts) = ps" using len by (rule map_fst_zip)
  then have "ps = map fst (pitchSeries env tc sr fr)" unfolding z by simp
  then have "set ps \<subseteq> {p. accepted p}" by (auto simp: pitchSeries_def)
  then have "list_all (\<lambda>p. \<exists>f. p = Fin f \<and> 0 < f \<and> f < 2000) ps"
    using accepted_finite by (auto simp: list_all_iff)
  then show ?thesis using inv by (simp add: res)
qed

lemma pitchLoop_sample: "pitchLoop quietEnv sampleClip 44100 0 0 False [] [] = Inr (False, [Fin 440], [Fin 0], 2)"
  apply (subst pitchLoop.simps)
  apply (simp add: sampleClip_def quietEnv_def cancelEarlyEnv_def sampleAnalyzer_def slice_def accepted_def jgt_def Let_def clicked_def)
  apply (subst pitchLoop.simps)
  apply (simp add: slice_def accepted_def jgt_def Let_def clicked_def)
  apply (subst pitchLoop.simps)
  apply (simp add: slice_def accepted_def jgt_def Let_def clicked_def)
  done

lemma pitchLoop_cancelled:
  "pitchLoop env tc sr i fr True ps ts
   = (if int i < int (length tc) - 4096 then Inl cancelledError else Inr (True, ps, ts, fr))"
  by (subst pitchLoop.simps) simp

lemma cancelled_before_pitch:
  assumes "clicked env AfterRhythmBanner \<or> clicked env AfterRhythm \<or> clicked env AfterPitchBanner"
  shows "analyzeAudioFile env (Some b) fn st0
         = st0\<lparr>analysisCancelled := True, cancelBtnShown := False,
               analysisResults := AnalysisFailed cancelledError\<rparr>"
proof -
  have btn: "hasCancelBtn env" using assms by (auto simp: clicked_def)
  show ?thesis
  proof (cases "clicked env AfterRhythmBanner")
    case True
    then show ?thesis
      by (simp add: analyzeAudioFile_def tryBlock_def awaitAt_def showCancelBtn_def hideCancelBtn_def btn Let_def)
  next
    case n1: False
    show ?thesis
    proof (cases "clicked env AfterRhythm")
      case True
      then show ?thesis using n1
        by (simp add: analyzeAudioFile_def tryBlock_def awaitAt_def showCancelBtn_def hideCancelBtn_def btn Let_def)
    next
      case n2: False
      then have c3: "clicked env AfterPitchBanner" using assms n1 by simp
      show ?thesis using n1 n2 c3
        by (simp add: analyzeAudioFile_def tryBlock_def awaitAt_def showCancelBtn_def hideCancelBtn_def btn Let_def
              pitchLoop_cancelled)
    qed
  qed
qed

lemma analyzeAudioFile_null_buffer:
  "analysisResults (analyzeAudioFile env None fn st0) = AnalysisFailed TypeError"
  by (simp add: analyzeAudioFile_def tryBlock_def hideCancelBtn_def Let_def)

lemma pitchLoop_flag:
  "pitchLoop env tc sr i fr c ps ts = Inr (c', ps', ts', fr')
   \<Longrightarrow> c' \<Longrightarrow> c \<or> (\<exists>k. clicked env (PitchYield k))"
proof (induction env tc sr i fr c ps ts rule: pitchLoop.induct)
  case (1 env tc sr i fr c ps ts)
  show ?case
  proof (cases "int i < int (length tc) - 4096")
    case False
    then have "(Inr (c, ps, ts, fr) :: jsError + _) = Inr (c', ps', ts', fr')"
      using "1.prems"(1) by (subst (asm) pitchLoop.simps) simp
    then show ?thesis using "1.prems"(2) by simp
  next
    case True
    have nc: "\<not> c" using "1.prems"(1) True by (subst (asm) pitchLoop.simps) (auto split: if_splits)
    let ?pitch = "detectPitch (analyzer env) (slice tc (int i) (int i + 4096))"
    let ?keep = "accepted ?pitch"
    let ?ps = "if ?keep then ps @ [?pitch] else ps"
    let ?ts = "if ?keep then ts @ [jdiv (Fin (real i)) (Fin sr)] else ts"
    let ?c = "if (fr + 1) mod 5 = 0 then c \<or> clicked env (PitchYield (fr + 1)) else c"
    have unfold: "pitchLoop env tc sr i fr c ps ts
          = (if fr + 1 \<ge> 20 then Inr (?c, ?ps, ?ts, fr + 1)
             else pitchLoop env tc sr (i + 4096 * 64) (fr + 1) ?c ?ps ?ts)"
      using True nc by (subst pitchLoop.simps) (simp add: Let_def)
    show ?thesis
    proof (cases "fr + 1 \<ge> 20")
      case last: True
      have u2: "pitchLoop env tc sr i fr c ps ts = Inr (?c, ?ps, ?ts, fr + 1)"
        by (subst unfold) (simp only: last if_True)
      have "(Inr (?c, ?ps, ?ts, fr + 1) :: jsError + _) = Inr (c', ps', ts', fr')"
        by (rule trans[OF u2[symmetric] "1.prems"(1)])
      then have "c' = ?c" by auto
      then show ?thesis using "1.prems"(2) by (auto split: if_splits)
    next
      case False
      have u3: "pitchLoop env tc sr i fr c ps ts
                = pitchLoop env tc sr (i + 4096 * 64) (fr + 1) ?c ?ps ?ts"
        by (subst unfold) (simp only: False if_False)
      have rec: "pitchLoop env tc sr (i + 4096 * 64) (fr + 1) ?c ?ps ?ts = Inr (c', ps', ts', fr')"
        by (rule trans[OF u3[symmetric] "1.prems"(1)])
      have "?c \<or> (\<exists>k. clicked env (PitchYield k))"
        by (rule "1.IH"[OF True nc refl refl refl refl refl refl refl False rec "1.prems"(2)])
      then show ?thesis by (auto split: if_splits)
    qed
  qed
qed

text \<open>
  An error of the first renderer, in a run that nobody cancels, ends in the failure panel
  with the analysis data already stored.
\<close>

lemma render_fault_after_store:
  assumes quiet: "\<forall>p. \<not> clicked env p" and fault: "rendererFault env PitchChart = Some e"
  shows "analysisResults (analyzeAudioFile env (Some b) fn st0) = AnalysisFailed e
         \<and> currentAnalysisData (analyzeAudioFile env (Some b) fn st0) \<noteq> None"
proof -
  let ?tc = "trimmedChannel (channelData b) (bufferSampleRate b)"
  have rf: "renderFault env view = Some e" for view
    by (simp add: renderFault_def fault)
  show ?thesis
  proof (cases "pitchLoop env ?tc (bufferSampleRate b) 0 0 False [] []")
    case (Inl err)
    then show ?thesis using pitchLoop_error[OF Inl] quiet by simp
  next
    case (Inr res)
    obtain c ps ts fr where res: "res = (c, ps, ts, fr)" by (cases res) auto
    have r: "pitchLoop env ?tc (bufferSampleRate b) 0 0 False [] [] = Inr (c, ps, ts, fr)"
      using Inr res by simp
    have nc: "\<not> c" using pitchLoop_flag[OF r] quiet by auto
    show ?thesis
      using quiet nc
      by (simp add: analyzeAudioFile_def tryBlock_def awaitAt_def showCancelBtn_def hideCancelBtn_def
            Let_def r rf)
  qed
qed




text \<open>
  Claim C8. The pitch loop, started on any window, either is cancelled at one of its
  suspensions or returns after examining at most 20 frames, taken every 262144 samples
  for as long as a frame of 4096 samples fits strictly inside the window. The pitches
  and timestamps it returns pair up, and the pairs are exactly the detected pitch and
  the start time of those examined frames whose pitch passed the filter, in order; so
  every pitch kept is a finite frequency above 0 and below 2000, and a rejected one
  leaves no entry.
\<close>

theorem pitch_sampling:
  "case pitchLoop env tc sr 0 0 False [] [] of
     Inl e \<Rightarrow> e = cancelledError \<and> (\<exists>k. clicked env (PitchYield k))
   | Inr (c, ps, ts, fr) \<Rightarrow>
       fr \<le> 20
       \<and> (\<forall>k<fr. int (k * 262144) < int (length tc) - 4096)
       \<and> (fr < 20 \<longrightarrow> \<not> int (fr * 262144) < int (length tc) - 4096)
       \<and> length ps = length ts
       \<and> zip ps ts = pitchSeries env tc sr fr
       \<and> list_all (\<lambda>p. \<exists>f. p = Fin f \<and> 0 < f \<and> f < 2000) ps"
  by (rule pitchLoop_series)

theorem pitch_sampling_witness:
  "pitchLoop quietEnv sampleClip 44100 0 0 False [] [] = Inr (False, [Fin 440], [Fin 0], 2)
   \<and> zip [Fin 440] [Fin 0] = pitchSeries quietEnv sampleClip 44100 2
   \<and> \<not> int (2 * 262144) < int (length sampleClip) - 4096"
  using pitch_sampling[of quietEnv sampleClip 44100] by (simp add: pitchLoop_sample)

text \<open>
  Claim C2, as stated: a run cancelled before the pitch stage ends with an outcome of
  its own, not a failure. The code throws an \<open>Error\<close> on cancellation and its only
  \<open>catch\<close> renders the failure panel: with a click during the first suspension the
  panel reports a failure.
\<close>

theorem cancelled_run_reports_failure:
  "reportsFailure
     (analysisResults (analyzeAudioFile cancelEarlyEnv (Some sampleBuffer) ''clip.wav'' initialState))"
  by (simp add: reportsFailure_def analyzeAudioFile_def tryBlock_def awaitAt_def showCancelBtn_def
        hideCancelBtn_def Let_def clicked_def cancelEarlyEnv_def initialState_def)

text \<open>
  Claim C2, amended. When the cancel button is clicked during a suspension before the
  pitch loop starts, the run ends in the common error handler: the panel is the failure
  panel with the message \<open>Analysis cancelled\<close>, the cancel button is hidden, and the stored
  analysis data is what it was before the run: nothing of the pitch, spectral, scale or
  matching stages is stored or shown.
\<close>

theorem cancelled_before_pitch_fails_empty:
  "clicked env AfterRhythmBanner \<or> clicked env AfterRhythm \<or> clicked env AfterPitchBanner \<Longrightarrow>
   analysisResults (analyzeAudioFile env (Some b) fn st0) = AnalysisFailed (Error ''Analysis cancelled'')
   \<and> currentAnalysisData (analyzeAudioFile env (Some b) fn st0) = currentAnalysisData st0
   \<and> analysisCancelled (analyzeAudioFile env (Some b) fn st0)
   \<and> \<not> cancelBtnShown (analyzeAudioFile env (Some b) fn st0)"
  using cancelled_before_pitch[of env b fn st0] by (simp add: cancelledError_def)

theorem cancelled_before_pitch_fails_empty_witness:
  "analysisResults (analyzeAudioFile cancelEarlyEnv (Some sampleBuffer) ''clip.wav'' initialState)
     = AnalysisFailed (Error ''Analysis cancelled'')
   \<and> currentAnalysisData (analyzeAudioFile cancelEarlyEnv (Some sampleBuffer) ''clip.wav'' initialState)
     = currentAnalysisData initialState
   \<and> analysisCancelled (analyzeAudioFile cancelEarlyEnv (Some sampleBuffer) ''clip.wav'' initialState)
   \<and> \<not> cancelBtnShown (analyzeAudioFile cancelEarlyEnv (Some sampleBuffer) ''clip.wav'' initialState)"
  by (rule cancelled_before_pitch_fails_empty) (simp add: clicked_def cancelEarlyEnv_def)

end
